theory Spec2Isabelle
  imports Main "HOL-Library.Word"
begin

section \<open>JavaScript values as the log server sees them\<close>

text \<open>
  The request body has already been decoded by \<^verbatim>\<open>express.json()\<close>, so the server works on
  JavaScript values. \<open>JObj\<close> lists the own properties of an object in the order in which
  \<^verbatim>\<open>for ... in\<close> enumerates them. The server only ever tests a number for being zero and,
  for a numeric session id, prints it. \<open>JNum n\<close> is the integer \<open>sint n\<close>, from \<open>-2^53\<close> up to
  \<open>2^53 - 1\<close>: each of these is a number of JavaScript and prints in plain decimal. Any other
  number (a fraction, a larger magnitude; none of them is zero) is \<open>JNumOther s\<close>, carried by the
  string \<open>s\<close> that JavaScript prints for it, such as \<^verbatim>\<open>1e+21\<close> or \<^verbatim>\<open>0.5\<close>.
\<close>

datatype jsval =
    JUndefined
  | JNull
  | JBool bool
  | JNum "54 word"
  | JNumOther string
  | JStr string
  | JArr "jsval list"
  | JObj "(string \<times> jsval) list"

datatype js_error = TypeError

text \<open>How a handler run ends: normally, or by a thrown exception. What was mutated before
  the throw stays mutated, so a completion always comes with the state reached.\<close>

datatype completion = Normal | Throw

fun truthy :: "jsval \<Rightarrow> bool" where
  "truthy JUndefined = False"
| "truthy JNull = False"
| "truthy (JBool b) = b"
| "truthy (JNum n) = (n \<noteq> 0)"
| "truthy (JNumOther s) = True"
| "truthy (JStr s) = (s \<noteq> [])"
| "truthy (JArr xs) = True"
| "truthy (JObj kvs) = True"

text \<open>\<^verbatim>\<open>v.name\<close> for the property names the server reads (\<^verbatim>\<open>type\<close>, \<^verbatim>\<open>rawStats\<close>,
  \<^verbatim>\<open>startTime\<close>, \<^verbatim>\<open>iceConnectionState\<close>, \<^verbatim>\<open>sessionId\<close>; none of them is inherited
  from a prototype): reading a property of \<^verbatim>\<open>null\<close> or \<^verbatim>\<open>undefined\<close> throws.\<close>

fun get_prop :: "jsval \<Rightarrow> string \<Rightarrow> js_error + jsval" where
  "get_prop JUndefined k = Inl TypeError"
| "get_prop JNull k = Inl TypeError"
| "get_prop (JObj kvs) k = Inr (case map_of kvs k of None \<Rightarrow> JUndefined | Some v \<Rightarrow> v)"
| "get_prop v k = Inr JUndefined"

text \<open>The values \<^verbatim>\<open>o[k]\<close> that \<^verbatim>\<open>for (const k in o)\<close> visits, in order: the own properties
  of an object, the elements of an array, the characters of a string, nothing otherwise.\<close>

fun forin_values :: "jsval \<Rightarrow> jsval list" where
  "forin_values (JObj kvs) =
     map (\<lambda>k. case map_of kvs k of None \<Rightarrow> JUndefined | Some v \<Rightarrow> v) (map fst kvs)"
| "forin_values (JArr xs) = xs"
| "forin_values (JStr s) = map (\<lambda>c. JStr [c]) s"
| "forin_values v = []"

text \<open>Conversion to a string, as a property key or a template literal converts. An object
  with an own \<^verbatim>\<open>toString\<close> property (never callable in decoded JSON) cannot be converted.\<close>

fun show_nat :: "nat \<Rightarrow> string" where
  "show_nat n =
     (if n < 10 then [''0123456789'' ! n]
      else show_nat (n div 10) @ [''0123456789'' ! (n mod 10)])"

definition show_int :: "int \<Rightarrow> string" where
  "show_int i = (if i < 0 then CHR ''-'' # show_nat (nat (- i)) else show_nat (nat i))"

fun to_string :: "jsval \<Rightarrow> js_error + string"
  and join_elems :: "jsval list \<Rightarrow> js_error + string" where
  "to_string JUndefined = Inr ''undefined''"
| "to_string JNull = Inr ''null''"
| "to_string (JBool b) = Inr (if b then ''true'' else ''false'')"
| "to_string (JNum n) = Inr (show_int (sint n))"
| "to_string (JNumOther s) = Inr s"
| "to_string (JStr s) = Inr s"
| "to_string (JArr xs) = join_elems xs"
| "to_string (JObj kvs) =
     (if map_of kvs ''toString'' = None then Inr ''[object Object]'' else Inl TypeError)"
| "join_elems [] = Inr []"
| "join_elems (x # xs) =
     (case (if x = JUndefined \<or> x = JNull then Inr [] else to_string x) of
        Inl e \<Rightarrow> Inl e
      | Inr s \<Rightarrow>
          (if xs = [] then Inr s
           else (case join_elems xs of Inl e \<Rightarrow> Inl e | Inr t \<Rightarrow> Inr (s @ '','' @ t))))"

section \<open>Session records and the ingestion loop\<close>

text \<open>
  The session object of the first server variant holds \<^verbatim>\<open>logs\<close>, \<^verbatim>\<open>isClosed\<close>,
  \<^verbatim>\<open>firstStatsTimestamp\<close>, \<^verbatim>\<open>earliestStatsStartTime\<close> and, once finalized, \<^verbatim>\<open>analyzed\<close>
  (absent, hence falsy, before); the continuous-analysis variant adds \<^verbatim>\<open>timedOut\<close> and
  \<^verbatim>\<open>lastActivityTime\<close>. Both variants run the same loop over a batch, so the loop is written
  once, over the common fields.
\<close>

record session_core =
  logs :: "jsval list"
  isClosed :: bool
  firstStatsTimestamp :: jsval
  earliestStatsStartTime :: jsval
  analyzed :: bool

record session = session_core +
  timedOut :: bool
  lastActivityTime :: nat

text \<open>The inner loop over the stat objects of one stats entry.\<close>

fun scan_stats :: "jsval list \<Rightarrow> 'a session_core_scheme \<Rightarrow> completion \<times> 'a session_core_scheme" where
  "scan_stats [] s = (Normal, s)"
| "scan_stats (statObj # rest) s =
     (case get_prop statObj ''startTime'' of
        Inl e \<Rightarrow> (Throw, s)
      | Inr st \<Rightarrow>
          scan_stats rest
            (if truthy st \<and> \<not> truthy (earliestStatsStartTime s)
             then s\<lparr>earliestStatsStartTime := st\<rparr> else s))"

definition closing_states :: "jsval list" where
  "closing_states = [JStr ''closed'', JStr ''failed'', JStr ''disconnected'']"

text \<open>The tail of the loop body: the ICE check on an entry whose \<^verbatim>\<open>type\<close> is \<open>t\<close>.\<close>

definition check_ice :: "jsval \<Rightarrow> jsval \<Rightarrow> 'a session_core_scheme \<Rightarrow> 'a session_core_scheme" where
  "check_ice t entry s =
     (if t = JStr ''state_change'' \<and>
         (case get_prop entry ''iceConnectionState'' of
            Inl e \<Rightarrow> False | Inr v \<Rightarrow> v \<in> set closing_states)
      then s\<lparr>isClosed := True\<rparr> else s)"

text \<open>One pass of the loop body for one entry: push, scan the stats, check the ICE state.\<close>

definition ingest_entry :: "jsval \<Rightarrow> 'a session_core_scheme \<Rightarrow> completion \<times> 'a session_core_scheme" where
  "ingest_entry entry s0 =
     (let s = s0\<lparr>logs := logs s0 @ [entry]\<rparr> in
      case get_prop entry ''type'' of
        Inl e \<Rightarrow> (Throw, s)
      | Inr t \<Rightarrow>
          (if t = JStr ''stats'' then
             (case get_prop entry ''rawStats'' of
                Inl e \<Rightarrow> (Throw, s)
              | Inr r \<Rightarrow>
                  (if truthy r then
                     (case scan_stats (forin_values r) s of
                        (Throw, s') \<Rightarrow> (Throw, s')
                      | (Normal, s') \<Rightarrow> (Normal, check_ice t entry s'))
                   else (Normal, check_ice t entry s)))
           else (Normal, check_ice t entry s)))"

fun ingest_entries :: "jsval list \<Rightarrow> 'a session_core_scheme \<Rightarrow> completion \<times> 'a session_core_scheme" where
  "ingest_entries [] s = (Normal, s)"
| "ingest_entries (entry # rest) s =
     (case ingest_entry entry s of
        (Throw, s') \<Rightarrow> (Throw, s')
      | (Normal, s') \<Rightarrow> ingest_entries rest s')"

section \<open>The server state of the continuous-analysis variant\<close>

text \<open>
  What a handler reads from outside the program when it runs: the clock (\<^verbatim>\<open>Date.now()\<close> in
  milliseconds and \<^verbatim>\<open>new Date().toISOString()\<close>) and whether \<^verbatim>\<open>webrtc_analyzer.py\<close> exists
  beside the server. A request handler that finalizes calls \<^verbatim>\<open>processLogsAndAnalyze\<close> a
  second time, which reads the date and tests the script again, after the first call has
  written and spawned: \<open>now_iso_later\<close> and \<open>pyScript_exists_later\<close> are what that second
  reading finds, and \<open>later\<close> is the environment of the second call.
\<close>

record env =
  now_ms :: nat
  now_iso :: string
  pyScript_exists :: bool
  now_iso_later :: string
  pyScript_exists_later :: bool

definition later :: "env \<Rightarrow> env" where
  "later e = e\<lparr>now_iso := now_iso_later e, pyScript_exists := pyScript_exists_later e\<rparr>"

text \<open>The paths the servers build, by the pieces they are joined from. The
  continuous-analysis variant: \<^verbatim>\<open>ANALYSIS_DIR/<session>/<folder>\<close>,
  \<^verbatim>\<open>.../<folder>/all_logs_<session>.json\<close> and \<^verbatim>\<open>ANALYSIS_DIR/<session>/final_results.json\<close>.
  The first variant: \<^verbatim>\<open>RAW_LOGS_DIR/<session>_<time>.json\<close>, \<^verbatim>\<open>ANALYSIS_DIR/<folder>\<close> and
  \<^verbatim>\<open>ANALYSIS_DIR/<folder>/all_logs_<session>.json\<close>.\<close>

datatype path =
    AnalysisFolder string string
  | CombinedJson string string
  | FinalResultsPath string
  | RawLogFile string string
  | AnalysisFolder1 string
  | CombinedJson1 string string

text \<open>File contents are kept as the value that \<^verbatim>\<open>JSON.stringify\<close> serialises.\<close>

datatype content = LogsSnapshot "jsval list" | Results jsval

datatype fs_op = MkDir path | WriteFile path content

datatype console_msg =
    ProcessingLogs string bool
  | RunningAnalyzer string
  | AnalyzerNotFound
  | AnalyzerErr string
  | AnalyzerFinished int
  | AnalysisResults jsval
  | SavedFinalResults path
  | NoValidJson
  | CouldNotParse
  | RawOutput string
  | SessionTimedOut string
  | SessionFinalizing string

text \<open>A spawned analyzer with what its \<^verbatim>\<open>close\<close> handler closes over: the session id, the
  \<^verbatim>\<open>newLogsOnly\<close> argument of the call that spawned it, the snapshot path it was given, and
  the stdout collected so far. The handler's \<^verbatim>\<open>sessionInfo\<close> is the object stored in
  \<^verbatim>\<open>sessions\<close> under that id: the server never replaces or deletes a session object.\<close>

record proc =
  proc_sid :: string
  proc_newLogsOnly :: bool
  proc_input :: path
  pyOutput :: string

text \<open>A pending timer of the event loop: the session id its callback closes over and the
  time at which it is due.\<close>

record timer =
  timer_sid :: string
  timer_due :: nat

text \<open>The state: the two tables of the program, the pending timers of the event loop and
  the analyzers in flight (each under the handle or process id it was given), and what the
  server has done to the file system and printed, in order.\<close>

record world =
  sessions :: "string \<rightharpoonup> session"
  sessionTimeouts :: "string \<rightharpoonup> nat"
  timers :: "(nat \<times> timer) list"
  next_timer :: nat
  procs :: "(nat \<times> proc) list"
  next_pid :: nat
  fs_log :: "fs_op list"
  console :: "console_msg list"

definition init_world :: world where
  "init_world =
     \<lparr>sessions = Map.empty, sessionTimeouts = Map.empty, timers = [], next_timer = 0,
      procs = [], next_pid = 0, fs_log = [], console = []\<rparr>"

definition SESSION_TIMEOUT :: nat where
  "SESSION_TIMEOUT = 10000"

definition console_log :: "console_msg \<Rightarrow> world \<Rightarrow> world" where
  "console_log m w = w\<lparr>console := console w @ [m]\<rparr>"

text \<open>File-system calls are recorded in the order they are made and taken to succeed: the
  directories are writable, and a session id is taken to be usable as one component of a
  file name (with an id that contains a path separator \<^verbatim>\<open>mkdirSync\<close> or \<^verbatim>\<open>writeFileSync\<close> can throw,
  which the handler answers with status 500).\<close>

definition fs_do :: "fs_op \<Rightarrow> world \<Rightarrow> world" where
  "fs_do op w = w\<lparr>fs_log := fs_log w @ [op]\<rparr>"

definition dir_exists :: "world \<Rightarrow> path \<Rightarrow> bool" where
  "dir_exists w p = (MkDir p \<in> set (fs_log w))"

subsection \<open>extractTimeFromISO\<close>

fun split_on :: "char \<Rightarrow> string \<Rightarrow> string list" where
  "split_on c [] = [[]]"
| "split_on c (x # xs) =
     (if x = c then [] # split_on c xs
      else (case split_on c xs of [] \<Rightarrow> [[x]] | p # ps \<Rightarrow> (x # p) # ps))"

text \<open>\<^verbatim>\<open>new Date().toISOString().replace(/[:.]/g, '-')\<close>\<close>

definition date_folder :: "env \<Rightarrow> string" where
  "date_folder e = map (\<lambda>c. if c = CHR '':'' \<or> c = CHR ''.'' then CHR ''-'' else c) (now_iso e)"

text \<open>Any exception inside (a value without \<^verbatim>\<open>split\<close>, a missing piece) is caught and gives
  the date folder.\<close>

definition extractTimeFromISO :: "env \<Rightarrow> jsval \<Rightarrow> string" where
  "extractTimeFromISO e isoString =
     (case isoString of
        JStr s \<Rightarrow>
          (case split_on CHR ''T'' s of
             a # b # rest \<Rightarrow>
               (case split_on CHR '':'' (hd (split_on CHR ''Z'' b)) of
                  hh # mm # ssMillis # rest' \<Rightarrow>
                    hh @ ''_'' @ mm @ ''_'' @ hd (split_on CHR ''.'' ssMillis)
                | _ \<Rightarrow> date_folder e)
           | _ \<Rightarrow> date_folder e)
      | _ \<Rightarrow> date_folder e)"

subsection \<open>processLogsAndAnalyze\<close>

text \<open>The folder name: the time of day of \<^verbatim>\<open>earliestStatsStartTime\<close> when there is one.\<close>

definition folderName_of :: "env \<Rightarrow> 'a session_core_scheme \<Rightarrow> string" where
  "folderName_of e sessionInfo =
     (if truthy (earliestStatsStartTime sessionInfo)
      then extractTimeFromISO e (earliestStatsStartTime sessionInfo)
      else date_folder e)"

definition spawn :: "proc \<Rightarrow> world \<Rightarrow> world" where
  "spawn p w = w\<lparr>procs := procs w @ [(next_pid w, p)], next_pid := Suc (next_pid w)\<rparr>"

text \<open>Called with a session id that is a string and, whenever a handler calls it, names an
  existing session. File-system calls and the start of \<^verbatim>\<open>python3\<close> are taken to succeed, and
  the directories that exist are those the server has made.\<close>

definition processLogsAndAnalyze :: "env \<Rightarrow> string \<Rightarrow> bool \<Rightarrow> world \<Rightarrow> world" where
  "processLogsAndAnalyze e sessionId newLogsOnly w =
     (case sessions w sessionId of
        None \<Rightarrow> w
      | Some sessionInfo \<Rightarrow>
          (let folderName = folderName_of e sessionInfo;
               analysisFolder = AnalysisFolder sessionId folderName;
               w1 = (if dir_exists w analysisFolder then w else fs_do (MkDir analysisFolder) w);
               combinedJsonPath = CombinedJson sessionId folderName;
               w2 = fs_do (WriteFile combinedJsonPath (LogsSnapshot (logs sessionInfo))) w1;
               w3 = console_log (ProcessingLogs sessionId newLogsOnly) w2
           in if pyScript_exists e then
                spawn \<lparr>proc_sid = sessionId, proc_newLogsOnly = newLogsOnly,
                       proc_input = combinedJsonPath, pyOutput = []\<rparr>
                  (console_log (RunningAnalyzer sessionId) w3)
              else console_log AnalyzerNotFound w3))"

subsection \<open>finalizeSession\<close>

definition finalizeSession :: "env \<Rightarrow> string \<Rightarrow> world \<Rightarrow> world" where
  "finalizeSession e sessionId w =
     (case sessions w sessionId of
        None \<Rightarrow> w
      | Some sessionInfo \<Rightarrow>
          (if analyzed sessionInfo then w
           else processLogsAndAnalyze e sessionId False
                  (console_log (SessionFinalizing sessionId)
                     (w\<lparr>sessions := (sessions w)(sessionId \<mapsto> sessionInfo\<lparr>analyzed := True\<rparr>)\<rparr>))))"

subsection \<open>setupSessionTimeout and the timer callback\<close>

definition clearTimeout :: "nat \<Rightarrow> world \<Rightarrow> world" where
  "clearTimeout h w = w\<lparr>timers := filter (\<lambda>(h', t). h' \<noteq> h) (timers w)\<rparr>"

definition setupSessionTimeout :: "env \<Rightarrow> string \<Rightarrow> world \<Rightarrow> world" where
  "setupSessionTimeout e sessionId w =
     (let w1 = (case sessionTimeouts w sessionId of None \<Rightarrow> w | Some h \<Rightarrow> clearTimeout h w);
          h' = next_timer w1
      in w1\<lparr>timers := timers w1 @ [(h', \<lparr>timer_sid = sessionId, timer_due = now_ms e + SESSION_TIMEOUT\<rparr>)],
             next_timer := Suc h',
             sessionTimeouts := (sessionTimeouts w1)(sessionId \<mapsto> h')\<rparr>)"

definition timeout_callback :: "env \<Rightarrow> string \<Rightarrow> world \<Rightarrow> world" where
  "timeout_callback e sessionId w =
     (let w1 = console_log (SessionTimedOut sessionId) w;
          w2 = (case sessions w1 sessionId of
                  None \<Rightarrow> w1
                | Some sessionInfo \<Rightarrow>
                    finalizeSession e sessionId
                      (w1\<lparr>sessions := (sessions w1)(sessionId \<mapsto>
                             sessionInfo\<lparr>timedOut := True, isClosed := True\<rparr>)\<rparr>))
      in w2\<lparr>sessionTimeouts := (sessionTimeouts w2)(sessionId := None)\<rparr>)"

text \<open>The event loop runs a timer's callback when the timer is pending and due, and removes
  it; a handle that was cleared, or already ran, is not pending.\<close>

definition timer_fire :: "env \<Rightarrow> nat \<Rightarrow> world \<Rightarrow> world" where
  "timer_fire e h w =
     (case map_of (timers w) h of
        None \<Rightarrow> w
      | Some t \<Rightarrow>
          (if timer_due t \<le> now_ms e
           then timeout_callback e (timer_sid t) (clearTimeout h w)
           else w))"

subsection \<open>The analyzer's streams and its close handler\<close>

text \<open>\<^verbatim>\<open>indexOf\<close> and \<^verbatim>\<open>lastIndexOf\<close> of a single character: the position, or \<open>-1\<close>.\<close>

fun indexOf :: "char \<Rightarrow> string \<Rightarrow> int" where
  "indexOf c [] = - 1"
| "indexOf c (x # xs) =
     (if x = c then 0 else (let i = indexOf c xs in if i < 0 then - 1 else i + 1))"

fun lastIndexOf :: "char \<Rightarrow> string \<Rightarrow> int" where
  "lastIndexOf c [] = - 1"
| "lastIndexOf c (x # xs) =
     (let i = lastIndexOf c xs in if 0 \<le> i then i + 1 else if x = c then 0 else - 1)"

text \<open>\<^verbatim>\<open>s.substring(a, b)\<close>; the handler calls it with \<open>0 \<le> a < b \<le> length s\<close>.\<close>

definition substring :: "string \<Rightarrow> int \<Rightarrow> int \<Rightarrow> string" where
  "substring s a b = take (nat (b - a)) (drop (nat a) s)"

text \<open>The string handed to \<^verbatim>\<open>JSON.parse\<close>, if the handler gets that far.\<close>

definition extract_json :: "string \<Rightarrow> string option" where
  "extract_json out =
     (let jsonStart = indexOf CHR ''{'' out;
          jsonEnd = lastIndexOf CHR ''}'' out
      in if 0 \<le> jsonStart \<and> 0 \<le> jsonEnd \<and> jsonStart < jsonEnd
         then Some (substring out jsonStart (jsonEnd + 1)) else None)"

definition on_stdout :: "nat \<Rightarrow> string \<Rightarrow> world \<Rightarrow> world" where
  "on_stdout pid data w =
     w\<lparr>procs := map (\<lambda>(q, p). if q = pid then (q, p\<lparr>pyOutput := pyOutput p @ data\<rparr>) else (q, p))
                   (procs w)\<rparr>"

definition on_stderr :: "nat \<Rightarrow> string \<Rightarrow> world \<Rightarrow> world" where
  "on_stderr pid data w =
     (case map_of (procs w) pid of None \<Rightarrow> w | Some p \<Rightarrow> console_log (AnalyzerErr data) w)"

text \<open>The body of the \<^verbatim>\<open>close\<close> handler, for the process record \<open>p\<close>. \<open>parse\<close> stands for
  \<^verbatim>\<open>JSON.parse\<close>, with \<open>None\<close> for a thrown \<^verbatim>\<open>SyntaxError\<close>; the \<^verbatim>\<open>try\<close> block catches it.\<close>

definition close_handler :: "(string \<Rightarrow> jsval option) \<Rightarrow> proc \<Rightarrow> int \<Rightarrow> world \<Rightarrow> world" where
  "close_handler parse p code w =
     (let w1 = console_log (AnalyzerFinished code) w in
      case extract_json (pyOutput p) of
        None \<Rightarrow> console_log NoValidJson w1
      | Some jsonString \<Rightarrow>
          (case parse jsonString of
             None \<Rightarrow> console_log (RawOutput (pyOutput p)) (console_log CouldNotParse w1)
           | Some finalResults \<Rightarrow>
               (let w2 = console_log (AnalysisResults finalResults) w1 in
                case sessions w2 (proc_sid p) of
                  None \<Rightarrow> w2
                | Some sessionInfo \<Rightarrow>
                    (if isClosed sessionInfo \<or> timedOut sessionInfo then
                       console_log (SavedFinalResults (FinalResultsPath (proc_sid p)))
                         (fs_do (WriteFile (FinalResultsPath (proc_sid p)) (Results finalResults)) w2)
                     else w2))))"

text \<open>A running process closes once; it is then no longer in flight.\<close>

definition on_close :: "(string \<Rightarrow> jsval option) \<Rightarrow> nat \<Rightarrow> int \<Rightarrow> world \<Rightarrow> world" where
  "on_close parse pid code w =
     (case map_of (procs w) pid of
        None \<Rightarrow> w
      | Some p \<Rightarrow> close_handler parse p code (w\<lparr>procs := filter (\<lambda>(q, p'). q \<noteq> pid) (procs w)\<rparr>))"

subsection \<open>POST /log\<close>

datatype response = R200 | R400 | R500

text \<open>The own property names of \<^verbatim>\<open>Object.prototype\<close>: \<^verbatim>\<open>sessions[id]\<close> for one of them is an
  inherited, truthy value without \<^verbatim>\<open>logs\<close>, and the first \<^verbatim>\<open>push\<close> throws.\<close>

definition object_prototype_keys :: "string list" where
  "object_prototype_keys =
     [''constructor'', ''__defineGetter__'', ''__defineSetter__'', ''hasOwnProperty'',
      ''__lookupGetter__'', ''__lookupSetter__'', ''isPrototypeOf'', ''propertyIsEnumerable'',
      ''toString'', ''valueOf'', ''__proto__'', ''toLocaleString'']"

text \<open>\<^verbatim>\<open>req.headers['x-webrtc-stats-session'] || (logs[0] && logs[0].sessionId) || 'unknown-session'\<close>\<close>

definition resolve_sessionId :: "string option \<Rightarrow> jsval \<Rightarrow> jsval" where
  "resolve_sessionId hdr first =
     (let h = (case hdr of None \<Rightarrow> JUndefined | Some x \<Rightarrow> JStr x) in
      if truthy h then h
      else (let v = (if truthy first
                     then (case get_prop first ''sessionId'' of Inl e \<Rightarrow> JUndefined | Inr x \<Rightarrow> x)
                     else first)
            in if truthy v then v else JStr ''unknown-session''))"

definition new_session :: "env \<Rightarrow> session" where
  "new_session e =
     \<lparr>logs = [], isClosed = False, firstStatsTimestamp = JNull, earliestStatsStartTime = JNull,
      analyzed = False, timedOut = False, lastActivityTime = now_ms e\<rparr>"

text \<open>What the handler does after the loop, for a session id that is a string.\<close>

definition after_ingest :: "env \<Rightarrow> string \<Rightarrow> world \<Rightarrow> world" where
  "after_ingest e sessionId w =
     (let w1 = processLogsAndAnalyze e sessionId True w;
          w2 = setupSessionTimeout e sessionId w1
      in case sessions w2 sessionId of
           None \<Rightarrow> w2
         | Some sessionInfo \<Rightarrow>
             if isClosed sessionInfo then finalizeSession (later e) sessionId w2 else w2)"

text \<open>
  The handler. A thrown exception ends it with status 500 and keeps what was mutated.
  A session id taken from the first entry need not be a string: as a property key it is
  converted, and \<^verbatim>\<open>path.join\<close> in \<^verbatim>\<open>processLogsAndAnalyze\<close> then throws on it.
\<close>

definition post_log :: "env \<Rightarrow> string option \<Rightarrow> jsval \<Rightarrow> world \<Rightarrow> response \<times> world" where
  "post_log e hdr body w =
     (case body of
        JArr (first # rest) \<Rightarrow>
          (let sessionId = resolve_sessionId hdr first in
           case to_string sessionId of
             Inl err \<Rightarrow> (R500, w)
           | Inr key \<Rightarrow>
               (if key \<in> set object_prototype_keys then (R500, w)
                else
                  (let s0 = (case sessions w key of None \<Rightarrow> new_session e | Some s \<Rightarrow> s) in
                   case ingest_entries (first # rest) s0 of
                     (Throw, s1) \<Rightarrow> (R500, w\<lparr>sessions := (sessions w)(key \<mapsto> s1)\<rparr>)
                   | (Normal, s1) \<Rightarrow>
                       (let w1 = w\<lparr>sessions :=
                                     (sessions w)(key \<mapsto> s1\<lparr>lastActivityTime := now_ms e\<rparr>)\<rparr>
                        in case sessionId of
                             JStr sid \<Rightarrow> (R200, after_ingest e sid w1)
                           | _ \<Rightarrow> (R500, w1)))))
      | _ \<Rightarrow> (R400, w))"

subsection \<open>Events and runs\<close>

text \<open>What can happen to the server: a request, a timer of the event loop coming due, data
  on a running analyzer's stdout or stderr, a running analyzer closing with an exit code.
  \<^verbatim>\<open>GET /health\<close> only reads the state and is left out.\<close>

datatype event =
    PostLog "string option" jsval
  | TimerFire nat
  | ProcStdout nat string
  | ProcStderr nat string
  | ProcClose nat int

fun step :: "(string \<Rightarrow> jsval option) \<Rightarrow> env \<times> event \<Rightarrow> world \<Rightarrow> world" where
  "step parse (e, PostLog hdr body) w = snd (post_log e hdr body w)"
| "step parse (e, TimerFire h) w = timer_fire e h w"
| "step parse (e, ProcStdout pid data) w = on_stdout pid data w"
| "step parse (e, ProcStderr pid data) w = on_stderr pid data w"
| "step parse (e, ProcClose pid code) w = on_close parse pid code w"

fun run :: "(string \<Rightarrow> jsval option) \<Rightarrow> (env \<times> event) list \<Rightarrow> world \<Rightarrow> world" where
  "run parse [] w = w"
| "run parse (ev # evs) w = run parse evs (step parse ev w)"

section \<open>The first server variant\<close>

text \<open>
  \<^verbatim>\<open>server.js\<close> keeps the same session table and runs the same loop over a batch. It has
  no inactivity timer and no analysis pass per request: a request writes its batch to a raw
  log file, and \<^verbatim>\<open>finalizeSession\<close> itself writes the snapshot and spawns the analyzer,
  whose output is parsed whole and only printed.
\<close>

record proc1 =
  proc1_sid :: string
  proc1_input :: path
  proc1_folder :: string
  pyOutput1 :: string

record world1 =
  sessions1 :: "string \<rightharpoonup> session_core"
  procs1 :: "(nat \<times> proc1) list"
  next_pid1 :: nat
  fs_log1 :: "fs_op list"
  console1 :: "console_msg list"

definition init_world1 :: world1 where
  "init_world1 = \<lparr>sessions1 = Map.empty, procs1 = [], next_pid1 = 0, fs_log1 = [], console1 = []\<rparr>"

text \<open>A new session object has no \<^verbatim>\<open>analyzed\<close> property, which reads as false.\<close>

definition new_session1 :: session_core where
  "new_session1 =
     \<lparr>logs = [], isClosed = False, firstStatsTimestamp = JNull, earliestStatsStartTime = JNull,
      analyzed = False\<rparr>"

definition finalizeSession1 :: "env \<Rightarrow> string \<Rightarrow> world1 \<Rightarrow> world1" where
  "finalizeSession1 e sessionId w =
     (case sessions1 w sessionId of
        None \<Rightarrow> w
      | Some sessionInfo \<Rightarrow>
          (if analyzed sessionInfo then w
           else
             (let w0 = w\<lparr>sessions1 := (sessions1 w)(sessionId \<mapsto> sessionInfo\<lparr>analyzed := True\<rparr>)\<rparr>;
                  folderName = folderName_of e sessionInfo;
                  analysisFolder = AnalysisFolder1 folderName;
                  w1 = (if MkDir analysisFolder \<in> set (fs_log1 w0) then w0
                        else w0\<lparr>fs_log1 := fs_log1 w0 @ [MkDir analysisFolder]\<rparr>);
                  combinedJsonPath = CombinedJson1 folderName sessionId;
                  w2 = w1\<lparr>fs_log1 := fs_log1 w1 @
                           [WriteFile combinedJsonPath (LogsSnapshot (logs sessionInfo))]\<rparr>;
                  w3 = w2\<lparr>console1 := console1 w2 @ [SessionFinalizing sessionId]\<rparr>
              in w3\<lparr>procs1 := procs1 w3 @
                        [(next_pid1 w3, \<lparr>proc1_sid = sessionId, proc1_input = combinedJsonPath,
                                          proc1_folder = folderName, pyOutput1 = []\<rparr>)],
                     next_pid1 := Suc (next_pid1 w3)\<rparr>)))"

text \<open>The handler. The session id is used as a property key and inside template literals
  only, so one that is not a string is used converted. The date is read for the raw log's
  file name, and again, later, by \<^verbatim>\<open>finalizeSession\<close>.\<close>

definition post_log1 :: "env \<Rightarrow> string option \<Rightarrow> jsval \<Rightarrow> world1 \<Rightarrow> response \<times> world1" where
  "post_log1 e hdr body w =
     (case body of
        JArr (first # rest) \<Rightarrow>
          (case to_string (resolve_sessionId hdr first) of
             Inl err \<Rightarrow> (R500, w)
           | Inr key \<Rightarrow>
               (if key \<in> set object_prototype_keys then (R500, w)
                else
                  (let s0 = (case sessions1 w key of None \<Rightarrow> new_session1 | Some s \<Rightarrow> s) in
                   case ingest_entries (first # rest) s0 of
                     (Throw, s1) \<Rightarrow> (R500, w\<lparr>sessions1 := (sessions1 w)(key \<mapsto> s1)\<rparr>)
                   | (Normal, s1) \<Rightarrow>
                       (let w1 = w\<lparr>sessions1 := (sessions1 w)(key \<mapsto> s1)\<rparr>;
                            w2 = w1\<lparr>fs_log1 := fs_log1 w1 @
                                     [WriteFile (RawLogFile key (date_folder e))
                                        (LogsSnapshot (first # rest))]\<rparr>
                        in (R200, if isClosed s1 then finalizeSession1 (later e) key w2 else w2)))))
      | _ \<Rightarrow> (R400, w))"

definition on_stdout1 :: "nat \<Rightarrow> string \<Rightarrow> world1 \<Rightarrow> world1" where
  "on_stdout1 pid data w =
     w\<lparr>procs1 := map (\<lambda>(q, p). if q = pid then (q, p\<lparr>pyOutput1 := pyOutput1 p @ data\<rparr>) else (q, p))
                    (procs1 w)\<rparr>"

definition on_stderr1 :: "nat \<Rightarrow> string \<Rightarrow> world1 \<Rightarrow> world1" where
  "on_stderr1 pid data w =
     (case map_of (procs1 w) pid of
        None \<Rightarrow> w
      | Some p \<Rightarrow> w\<lparr>console1 := console1 w @ [AnalyzerErr data]\<rparr>)"

definition on_close1 :: "(string \<Rightarrow> jsval option) \<Rightarrow> nat \<Rightarrow> int \<Rightarrow> world1 \<Rightarrow> world1" where
  "on_close1 parse pid code w =
     (case map_of (procs1 w) pid of
        None \<Rightarrow> w
      | Some p \<Rightarrow>
          w\<lparr>procs1 := filter (\<lambda>(q, p'). q \<noteq> pid) (procs1 w),
            console1 := console1 w @
              [AnalyzerFinished code,
               (case parse (pyOutput1 p) of
                  None \<Rightarrow> CouldNotParse
                | Some finalResults \<Rightarrow> AnalysisResults finalResults)]\<rparr>)"

text \<open>This variant sets no timer, so no timer ever comes due.\<close>

fun step1 :: "(string \<Rightarrow> jsval option) \<Rightarrow> env \<times> event \<Rightarrow> world1 \<Rightarrow> world1" where
  "step1 parse (e, PostLog hdr body) w = snd (post_log1 e hdr body w)"
| "step1 parse (e, TimerFire h) w = w"
| "step1 parse (e, ProcStdout pid data) w = on_stdout1 pid data w"
| "step1 parse (e, ProcStderr pid data) w = on_stderr1 pid data w"
| "step1 parse (e, ProcClose pid code) w = on_close1 parse pid code w"

fun run1 :: "(string \<Rightarrow> jsval option) \<Rightarrow> (env \<times> event) list \<Rightarrow> world1 \<Rightarrow> world1" where
  "run1 parse [] w = w"
| "run1 parse (ev # evs) w = run1 parse evs (step1 parse ev w)"

section \<open>What the claims observe\<close>

text \<open>Reading one session's fields off the table; an absent session reads as a fresh one.\<close>

definition logs_of :: "world \<Rightarrow> string \<Rightarrow> jsval list" where
  "logs_of w sid = (case sessions w sid of None \<Rightarrow> [] | Some s \<Rightarrow> logs s)"

definition earliest_of :: "world \<Rightarrow> string \<Rightarrow> jsval" where
  "earliest_of w sid = (case sessions w sid of None \<Rightarrow> JNull | Some s \<Rightarrow> earliestStatsStartTime s)"

definition analyzed_of :: "world \<Rightarrow> string \<Rightarrow> bool" where
  "analyzed_of w sid = (case sessions w sid of None \<Rightarrow> False | Some s \<Rightarrow> analyzed s)"

text \<open>How often \<^verbatim>\<open>finalizeSession\<close> got past its guard for a session (it prints one line
  each time), and how often the analysis pass it requests ran.\<close>

definition finalizations :: "world \<Rightarrow> string \<Rightarrow> nat" where
  "finalizations w sid = count_list (console w) (SessionFinalizing sid)"

definition final_passes :: "world \<Rightarrow> string \<Rightarrow> nat" where
  "final_passes w sid = count_list (console w) (ProcessingLogs sid False)"

text \<open>The pending timers whose callback is for a session, and the analyzers in flight for it.\<close>

definition pending_for :: "world \<Rightarrow> string \<Rightarrow> (nat \<times> timer) list" where
  "pending_for w sid = filter (\<lambda>(h, t). timer_sid t = sid) (timers w)"

definition in_flight :: "world \<Rightarrow> string \<Rightarrow> (nat \<times> proc) list" where
  "in_flight w sid = filter (\<lambda>(pid, p). proc_sid p = sid) (procs w)"

text \<open>The start times a batch carries, in arrival order: for each entry of type \<^verbatim>\<open>stats\<close>, the
  truthy \<^verbatim>\<open>startTime\<close> values of its nested stat objects. \<open>first_write\<close> is the
  first-write-wins rule: a value that is set stays, an unset one takes the first candidate.\<close>

definition carried_startTime :: "jsval \<Rightarrow> jsval option" where
  "carried_startTime statObj =
     (case get_prop statObj ''startTime'' of
        Inl e \<Rightarrow> None
      | Inr st \<Rightarrow> if truthy st then Some st else None)"

definition stat_objects :: "jsval \<Rightarrow> jsval list" where
  "stat_objects entry =
     (if get_prop entry ''type'' = Inr (JStr ''stats'')
      then (case get_prop entry ''rawStats'' of Inl e \<Rightarrow> [] | Inr r \<Rightarrow> forin_values r)
      else [])"

definition startTimes :: "jsval list \<Rightarrow> jsval list" where
  "startTimes entries = List.map_filter carried_startTime (concat (map stat_objects entries))"

definition first_write :: "jsval \<Rightarrow> jsval list \<Rightarrow> jsval" where
  "first_write est ts = (if truthy est then est else case ts of [] \<Rightarrow> est | t # _ \<Rightarrow> t)"

text \<open>The session id a request resolves to, the key under which its entries are stored, the
  entries of a request, and the session object the handler works on (the stored one, or the
  one it creates).\<close>

definition requested_id :: "string option \<Rightarrow> jsval \<Rightarrow> jsval option" where
  "requested_id hdr body =
     (case body of JArr (first # rest) \<Rightarrow> Some (resolve_sessionId hdr first) | _ \<Rightarrow> None)"

definition session_key :: "string option \<Rightarrow> jsval \<Rightarrow> string option" where
  "session_key hdr body =
     (case requested_id hdr body of
        None \<Rightarrow> None
      | Some v \<Rightarrow> (case to_string v of Inl e \<Rightarrow> None | Inr key \<Rightarrow> Some key))"

definition batch_entries :: "jsval \<Rightarrow> jsval list" where
  "batch_entries body = (case body of JArr xs \<Rightarrow> xs | _ \<Rightarrow> [])"

definition session_before :: "env \<Rightarrow> world \<Rightarrow> string \<Rightarrow> session" where
  "session_before e w key = (case sessions w key of None \<Rightarrow> new_session e | Some s \<Rightarrow> s)"

text \<open>The entries submitted under a session id in a sequence of events, in arrival order, and
  whether every request submitted under that id was answered with status 200.\<close>

fun batches_for :: "string \<Rightarrow> (env \<times> event) list \<Rightarrow> jsval list" where
  "batches_for sid [] = []"
| "batches_for sid ((e, PostLog hdr body) # evs) =
     (if session_key hdr body = Some sid then batch_entries body else []) @ batches_for sid evs"
| "batches_for sid (ev # evs) = batches_for sid evs"

fun accepted_for :: "(string \<Rightarrow> jsval option) \<Rightarrow> string \<Rightarrow> (env \<times> event) list \<Rightarrow> world \<Rightarrow> bool" where
  "accepted_for parse sid [] w = True"
| "accepted_for parse sid ((e, ev) # evs) w =
     ((case ev of
         PostLog hdr body \<Rightarrow>
           session_key hdr body \<noteq> Some sid \<or> fst (post_log e hdr body w) = R200
       | _ \<Rightarrow> True) \<and>
      accepted_for parse sid evs (step parse (e, ev) w))"

text \<open>What one handler run, or a sequence of them, can do to a session's finalization state:
  nothing, or take it from not analyzed to analyzed with exactly one more finalization.\<close>

definition finalize_step :: "world \<Rightarrow> world \<Rightarrow> string \<Rightarrow> bool" where
  "finalize_step w w' x =
     ((analyzed_of w' x = analyzed_of w x \<and> finalizations w' x = finalizations w x \<and>
       final_passes w' x = final_passes w x) \<or>
      (\<not> analyzed_of w x \<and> analyzed_of w' x \<and> finalizations w' x = Suc (finalizations w x) \<and>
       final_passes w' x = Suc (final_passes w x)))"

text \<open>The same readings for the first server variant.\<close>

definition logs_of1 :: "world1 \<Rightarrow> string \<Rightarrow> jsval list" where
  "logs_of1 w sid = (case sessions1 w sid of None \<Rightarrow> [] | Some s \<Rightarrow> logs s)"

definition earliest_of1 :: "world1 \<Rightarrow> string \<Rightarrow> jsval" where
  "earliest_of1 w sid = (case sessions1 w sid of None \<Rightarrow> JNull | Some s \<Rightarrow> earliestStatsStartTime s)"

definition analyzed_of1 :: "world1 \<Rightarrow> string \<Rightarrow> bool" where
  "analyzed_of1 w sid = (case sessions1 w sid of None \<Rightarrow> False | Some s \<Rightarrow> analyzed s)"

definition finalizations1 :: "world1 \<Rightarrow> string \<Rightarrow> nat" where
  "finalizations1 w sid = count_list (console1 w) (SessionFinalizing sid)"

definition session_before1 :: "world1 \<Rightarrow> string \<Rightarrow> session_core" where
  "session_before1 w key = (case sessions1 w key of None \<Rightarrow> new_session1 | Some s \<Rightarrow> s)"

fun accepted_for1 :: "(string \<Rightarrow> jsval option) \<Rightarrow> string \<Rightarrow> (env \<times> event) list \<Rightarrow> world1 \<Rightarrow> bool" where
  "accepted_for1 parse sid [] w = True"
| "accepted_for1 parse sid ((e, ev) # evs) w =
     ((case ev of
         PostLog hdr body \<Rightarrow>
           session_key hdr body \<noteq> Some sid \<or> fst (post_log1 e hdr body w) = R200
       | _ \<Rightarrow> True) \<and>
      accepted_for1 parse sid evs (step1 parse (e, ev) w))"

definition finalize_step1 :: "world1 \<Rightarrow> world1 \<Rightarrow> string \<Rightarrow> bool" where
  "finalize_step1 w w' x =
     ((analyzed_of1 w' x = analyzed_of1 w x \<and> finalizations1 w' x = finalizations1 w x) \<or>
      (\<not> analyzed_of1 w x \<and> analyzed_of1 w' x \<and> finalizations1 w' x = Suc (finalizations1 w x)))"

text \<open>The timer tables are consistent: handles are distinct and were all handed out before,
  every pending timer is the one recorded for its session, which exists, and no handle is
  recorded for two sessions. A handle is superseded when it was handed out and is no longer
  pending.\<close>

definition timers_ok :: "world \<Rightarrow> bool" where
  "timers_ok w =
     (distinct (map fst (timers w)) \<and>
      (\<forall>(h, t) \<in> set (timers w).
          h < next_timer w \<and> sessionTimeouts w (timer_sid t) = Some h \<and>
          sessions w (timer_sid t) \<noteq> None) \<and>
      (\<forall>sid h. sessionTimeouts w sid = Some h \<longrightarrow> h < next_timer w) \<and>
      (\<forall>x y h. sessionTimeouts w x = Some h \<and> sessionTimeouts w y = Some h \<longrightarrow> x = y))"

definition superseded :: "world \<Rightarrow> nat \<Rightarrow> bool" where
  "superseded w h = (h < next_timer w \<and> h \<notin> fst ` set (timers w))"

section \<open>Example inputs\<close>

definition env0 :: env where
  "env0 =
     \<lparr>now_ms = 1000, now_iso = ''2025-02-26T05:46:26.093Z'', pyScript_exists = True,
      now_iso_later = ''2025-02-26T05:46:26.094Z'', pyScript_exists_later = True\<rparr>"

definition env_later :: env where
  "env_later =
     \<lparr>now_ms = 20000, now_iso = ''2025-02-26T05:46:45.093Z'', pyScript_exists = True,
      now_iso_later = ''2025-02-26T05:46:45.094Z'', pyScript_exists_later = True\<rparr>"

definition env_last :: env where
  "env_last =
     \<lparr>now_ms = 40000, now_iso = ''2025-02-26T05:47:05.093Z'', pyScript_exists = True,
      now_iso_later = ''2025-02-26T05:47:05.094Z'', pyScript_exists_later = True\<rparr>"

text \<open>A stand-in for \<^verbatim>\<open>JSON.parse\<close> that is right on the two strings the examples feed it:
  \<^verbatim>\<open>{}\<close> is the empty object and \<^verbatim>\<open>{oops}\<close> is a syntax error.\<close>

definition parse0 :: "string \<Rightarrow> jsval option" where
  "parse0 s = (if s = ''{}'' then Some (JObj []) else None)"

definition closing_entry :: jsval where
  "closing_entry =
     JObj [(''type'', JStr ''state_change''), (''iceConnectionState'', JStr ''failed''),
           (''sessionId'', JStr ''s1'')]"

definition stats_entry :: "jsval \<Rightarrow> jsval" where
  "stats_entry startTime =
     JObj [(''type'', JStr ''stats''),
           (''rawStats'', JObj [(''IT01'', JObj [(''startTime'', startTime)])]),
           (''sessionId'', JStr ''s1'')]"

definition world_closed :: world where
  "world_closed = snd (post_log env0 None (JArr [closing_entry]) init_world)"

definition world_open :: world where
  "world_open =
     snd (post_log env0 (Some ''s1'') (JArr [stats_entry (JStr ''2025-02-26T05:46:26.093Z'')]) init_world)"

definition world1_closed :: world1 where
  "world1_closed = snd (post_log1 env0 None (JArr [closing_entry]) init_world1)"

definition world1_open :: world1 where
  "world1_open =
     snd (post_log1 env0 (Some ''s1'') (JArr [stats_entry (JStr ''2025-02-26T05:46:26.093Z'')])
            init_world1)"

section \<open>Properties of the model\<close>

subsection \<open>The ingestion loop\<close>

lemma run_append: "run parse (evs @ evs') w = run parse evs' (run parse evs w)"
  by (induction evs arbitrary: w) simp_all

lemma scan_stats_logs [simp]: "logs (snd (scan_stats xs s)) = logs s"
  by (induction xs arbitrary: s) (auto split: sum.splits)

lemma scan_stats_isClosed [simp]: "isClosed (snd (scan_stats xs s)) = isClosed s"
  by (induction xs arbitrary: s) (auto split: sum.splits)

lemma scan_stats_analyzed [simp]: "analyzed (snd (scan_stats xs s)) = analyzed s"
  by (induction xs arbitrary: s) (auto split: sum.splits)

lemma scan_stats_firstStats [simp]: "firstStatsTimestamp (snd (scan_stats xs s)) = firstStatsTimestamp s"
  by (induction xs arbitrary: s) (auto split: sum.splits)

lemma scan_stats_more [simp]: "session_core.more (snd (scan_stats xs s)) = session_core.more s"
  by (induction xs arbitrary: s) (auto split: sum.splits)

lemma scan_stats_timedOut [simp]: "timedOut (snd (scan_stats xs s)) = timedOut s"
  by (induction xs arbitrary: s) (auto split: sum.splits)

lemma scan_stats_lastActivityTime [simp]: "lastActivityTime (snd (scan_stats xs s)) = lastActivityTime s"
  by (induction xs arbitrary: s) (auto split: sum.splits)

lemma scan_stats_set: "truthy (earliestStatsStartTime s) \<Longrightarrow> earliestStatsStartTime (snd (scan_stats xs s)) = earliestStatsStartTime s"
  by (induction xs arbitrary: s) (auto split: sum.splits)

lemma first_write_idem: "truthy est \<Longrightarrow> first_write est ts = est"
  by (simp add: first_write_def)

lemma scan_stats_est:
  "fst (scan_stats xs s) = Normal \<Longrightarrow>
   earliestStatsStartTime (snd (scan_stats xs s)) =
     first_write (earliestStatsStartTime s) (List.map_filter carried_startTime xs)"
proof (induction xs arbitrary: s)
  case Nil
  then show ?case by (simp add: first_write_def List.map_filter_def)
next
  case (Cons x xs)
  then show ?case
    by (auto simp: carried_startTime_def first_write_def split: sum.splits)
qed

lemma check_ice_fields [simp]:
  "logs (check_ice t x s) = logs s"
  "analyzed (check_ice t x s) = analyzed s"
  "earliestStatsStartTime (check_ice t x s) = earliestStatsStartTime s"
  "firstStatsTimestamp (check_ice t x s) = firstStatsTimestamp s"
  "session_core.more (check_ice t x s) = session_core.more s"
  "timedOut (check_ice t x s') = timedOut s'"
  "lastActivityTime (check_ice t x s') = lastActivityTime s'"
  by (simp_all add: check_ice_def)

lemma check_ice_isClosed: "isClosed s \<Longrightarrow> isClosed (check_ice t x s)"
  by (simp add: check_ice_def)

lemma scan_stats_eqD:
  "scan_stats xs s = (c, s') \<Longrightarrow>
     logs s' = logs s \<and> isClosed s' = isClosed s \<and> analyzed s' = analyzed s \<and>
     firstStatsTimestamp s' = firstStatsTimestamp s \<and> session_core.more s' = session_core.more s \<and>
     (truthy (earliestStatsStartTime s) \<longrightarrow> earliestStatsStartTime s' = earliestStatsStartTime s) \<and>
     (c = Normal \<longrightarrow> earliestStatsStartTime s' =
        first_write (earliestStatsStartTime s) (List.map_filter carried_startTime xs))"
  using scan_stats_logs [of xs s] scan_stats_isClosed [of xs s] scan_stats_analyzed [of xs s]
    scan_stats_firstStats [of xs s] scan_stats_more [of xs s] scan_stats_set [of s xs]
    scan_stats_est [of xs s]
  by simp

lemma scan_stats_eqD2:
  "scan_stats xs s = (c, s') \<Longrightarrow> timedOut s' = timedOut s \<and> lastActivityTime s' = lastActivityTime s"
  using scan_stats_timedOut [of xs s] scan_stats_lastActivityTime [of xs s]
  by simp

lemma ingest_entry_logs [simp]: "logs (snd (ingest_entry x s)) = logs s @ [x]"
  by (auto simp: ingest_entry_def Let_def split: sum.splits completion.splits prod.splits dest!: scan_stats_eqD)

lemma ingest_entry_analyzed [simp]: "analyzed (snd (ingest_entry x s)) = analyzed s"
  by (auto simp: ingest_entry_def Let_def split: sum.splits completion.splits prod.splits dest!: scan_stats_eqD)

lemma ingest_entry_firstStats [simp]: "firstStatsTimestamp (snd (ingest_entry x s)) = firstStatsTimestamp s"
  by (auto simp: ingest_entry_def Let_def split: sum.splits completion.splits prod.splits dest!: scan_stats_eqD)

lemma ingest_entry_timedOut [simp]: "timedOut (snd (ingest_entry x s)) = timedOut s"
  by (auto simp: ingest_entry_def Let_def split: sum.splits completion.splits prod.splits dest!: scan_stats_eqD2)

lemma ingest_entry_lastActivityTime [simp]: "lastActivityTime (snd (ingest_entry x s)) = lastActivityTime s"
  by (auto simp: ingest_entry_def Let_def split: sum.splits completion.splits prod.splits dest!: scan_stats_eqD2)

lemma ingest_entry_isClosed: "isClosed s \<Longrightarrow> isClosed (snd (ingest_entry x s))"
  by (auto simp: ingest_entry_def Let_def check_ice_def split: sum.splits completion.splits prod.splits dest!: scan_stats_eqD)

lemma ingest_entry_set:
  "truthy (earliestStatsStartTime s) \<Longrightarrow> earliestStatsStartTime (snd (ingest_entry x s)) = earliestStatsStartTime s"
  by (auto simp: ingest_entry_def Let_def split: sum.splits completion.splits prod.splits dest!: scan_stats_eqD)

lemma forin_values_falsy: "\<not> truthy r \<Longrightarrow> forin_values r = []"
  by (cases r) auto

lemma ingest_entry_est:
  "fst (ingest_entry x s) = Normal \<Longrightarrow>
   earliestStatsStartTime (snd (ingest_entry x s)) =
     first_write (earliestStatsStartTime s) (List.map_filter carried_startTime (stat_objects x))"
  by (auto simp: ingest_entry_def Let_def stat_objects_def first_write_def forin_values_falsy
      split: sum.splits completion.splits prod.splits dest!: scan_stats_eqD)

lemma truthy_startTimes: "t \<in> set (List.map_filter carried_startTime xs) \<Longrightarrow> truthy t"
  by (auto simp: List.map_filter_def carried_startTime_def split: sum.splits if_splits)

lemma first_write_append:
  "(\<forall>t \<in> set ts. truthy t) \<Longrightarrow> first_write (first_write est ts) us = first_write est (ts @ us)"
  by (cases ts) (auto simp: first_write_def split: list.splits)

lemma ingest_entries_logs_Normal:
  "fst (ingest_entries xs s) = Normal \<Longrightarrow> logs (snd (ingest_entries xs s)) = logs s @ xs"
proof (induction xs arbitrary: s)
  case Nil then show ?case by simp
next
  case (Cons x xs)
  obtain c s' where r: "ingest_entry x s = (c, s')" by (cases "ingest_entry x s")
  with Cons.prems have c: "c = Normal" by (cases c) auto
  from r have l: "logs s' = logs s @ [x]" using ingest_entry_logs [of x s] by simp
  from Cons.prems r c have "fst (ingest_entries xs s') = Normal" by simp
  from Cons.IH [OF this] r c l show ?case by simp
qed

lemma ingest_entries_logs_prefix:
  "\<exists>ys. logs (snd (ingest_entries xs s)) = logs s @ ys"
proof (induction xs arbitrary: s)
  case Nil then show ?case by simp
next
  case (Cons x xs)
  obtain c s' where r: "ingest_entry x s = (c, s')" by (cases "ingest_entry x s")
  from r have l: "logs s' = logs s @ [x]" using ingest_entry_logs [of x s] by simp
  show ?case
  proof (cases c)
    case Normal
    from Cons.IH [of s'] obtain ys where "logs (snd (ingest_entries xs s')) = logs s' @ ys" by blast
    with r Normal l show ?thesis by simp
  next
    case Throw
    with r l show ?thesis by simp
  qed
qed

lemma ingest_entries_fields [simp]:
  "analyzed (snd (ingest_entries xs s)) = analyzed s"
  "firstStatsTimestamp (snd (ingest_entries xs s)) = firstStatsTimestamp s"
  "timedOut (snd (ingest_entries xs s')) = timedOut s'"
  "lastActivityTime (snd (ingest_entries xs s')) = lastActivityTime s'"
proof (induction xs arbitrary: s s')
  case Nil
  { case 1 show ?case by simp next
    case 2 show ?case by simp next
    case 3 show ?case by simp next
    case 4 show ?case by simp }
next
  case (Cons x xs)
  { case 1 
    show ?case using Cons.IH(1) [of "snd (ingest_entry x s)"] ingest_entry_analyzed [of x s]
      by (cases "ingest_entry x s") (auto split: completion.splits)
  next
    case 2
    show ?case using Cons.IH(2) [of "snd (ingest_entry x s)"] ingest_entry_firstStats [of x s]
      by (cases "ingest_entry x s") (auto split: completion.splits)
  next
    case 3
    show ?case using Cons.IH(3) [of "snd (ingest_entry x s')"] ingest_entry_timedOut [of x s']
      by (cases "ingest_entry x s'") (auto split: completion.splits)
  next
    case 4
    show ?case using Cons.IH(4) [of "snd (ingest_entry x s')"] ingest_entry_lastActivityTime [of x s']
      by (cases "ingest_entry x s'") (auto split: completion.splits)
  }
qed

subsection \<open>The effect of each operation, field by field\<close>

lemma console_log_fields [simp]:
  "sessions (console_log m w) = sessions w"
  "sessionTimeouts (console_log m w) = sessionTimeouts w"
  "timers (console_log m w) = timers w"
  "next_timer (console_log m w) = next_timer w"
  "procs (console_log m w) = procs w"
  "next_pid (console_log m w) = next_pid w"
  "fs_log (console_log m w) = fs_log w"
  "console (console_log m w) = console w @ [m]"
  by (simp_all add: console_log_def)

lemma fs_do_fields [simp]:
  "sessions (fs_do op w) = sessions w"
  "sessionTimeouts (fs_do op w) = sessionTimeouts w"
  "timers (fs_do op w) = timers w"
  "next_timer (fs_do op w) = next_timer w"
  "procs (fs_do op w) = procs w"
  "next_pid (fs_do op w) = next_pid w"
  "fs_log (fs_do op w) = fs_log w @ [op]"
  "console (fs_do op w) = console w"
  by (simp_all add: fs_do_def)

lemma spawn_fields [simp]:
  "sessions (spawn p w) = sessions w"
  "sessionTimeouts (spawn p w) = sessionTimeouts w"
  "timers (spawn p w) = timers w"
  "next_timer (spawn p w) = next_timer w"
  "procs (spawn p w) = procs w @ [(next_pid w, p)]"
  "next_pid (spawn p w) = Suc (next_pid w)"
  "fs_log (spawn p w) = fs_log w"
  "console (spawn p w) = console w"
  by (simp_all add: spawn_def)

lemma clearTimeout_fields [simp]:
  "sessions (clearTimeout h w) = sessions w"
  "sessionTimeouts (clearTimeout h w) = sessionTimeouts w"
  "timers (clearTimeout h w) = filter (\<lambda>(h', t). h' \<noteq> h) (timers w)"
  "next_timer (clearTimeout h w) = next_timer w"
  "procs (clearTimeout h w) = procs w"
  "next_pid (clearTimeout h w) = next_pid w"
  "fs_log (clearTimeout h w) = fs_log w"
  "console (clearTimeout h w) = console w"
  by (simp_all add: clearTimeout_def)

text \<open>What \<^verbatim>\<open>processLogsAndAnalyze\<close> changes.\<close>

lemma pla_absent: "sessions w sid = None \<Longrightarrow> processLogsAndAnalyze e sid b w = w"
  by (simp add: processLogsAndAnalyze_def)

lemma pla_fields [simp]:
  "sessions (processLogsAndAnalyze e sid b w) = sessions w"
  "sessionTimeouts (processLogsAndAnalyze e sid b w) = sessionTimeouts w"
  "timers (processLogsAndAnalyze e sid b w) = timers w"
  "next_timer (processLogsAndAnalyze e sid b w) = next_timer w"
  by (simp_all add: processLogsAndAnalyze_def Let_def split: option.splits)

lemma pla_console:
  "console (processLogsAndAnalyze e sid b w) =
     console w @ (case sessions w sid of None \<Rightarrow> []
       | Some s \<Rightarrow> [ProcessingLogs sid b, if pyScript_exists e then RunningAnalyzer sid else AnalyzerNotFound])"
  by (simp add: processLogsAndAnalyze_def Let_def split: option.splits)

lemma pla_procs:
  "procs (processLogsAndAnalyze e sid b w) =
     procs w @ (case sessions w sid of None \<Rightarrow> []
       | Some s \<Rightarrow> if pyScript_exists e
           then [(next_pid w, \<lparr>proc_sid = sid, proc_newLogsOnly = b,
                   proc_input = CombinedJson sid (folderName_of e s), pyOutput = []\<rparr>)]
           else [])"
  by (simp add: processLogsAndAnalyze_def Let_def split: option.splits)

lemma pla_next_pid:
  "next_pid (processLogsAndAnalyze e sid b w) =
     (if sessions w sid \<noteq> None \<and> pyScript_exists e then Suc (next_pid w) else next_pid w)"
  by (auto simp add: processLogsAndAnalyze_def Let_def split: option.splits)

lemma pla_fs_log:
  "fs_log (processLogsAndAnalyze e sid b w) =
     fs_log w @ (case sessions w sid of None \<Rightarrow> []
       | Some s \<Rightarrow>
          (if dir_exists w (AnalysisFolder sid (folderName_of e s)) then []
           else [MkDir (AnalysisFolder sid (folderName_of e s))]) @
          [WriteFile (CombinedJson sid (folderName_of e s)) (LogsSnapshot (logs s))])"
  by (simp add: processLogsAndAnalyze_def Let_def split: option.splits)

text \<open>What \<^verbatim>\<open>finalizeSession\<close> changes.\<close>

lemma finalize_noop:
  "sessions w sid = Some s \<Longrightarrow> analyzed s \<Longrightarrow> finalizeSession e sid w = w"
  by (simp add: finalizeSession_def)

lemma finalize_absent: "sessions w sid = None \<Longrightarrow> finalizeSession e sid w = w"
  by (simp add: finalizeSession_def)

lemma finalize_fields [simp]:
  "sessionTimeouts (finalizeSession e sid w) = sessionTimeouts w"
  "timers (finalizeSession e sid w) = timers w"
  "next_timer (finalizeSession e sid w) = next_timer w"
  by (simp_all add: finalizeSession_def split: option.splits)

lemma finalize_sessions:
  "sessions (finalizeSession e sid w) =
     (case sessions w sid of None \<Rightarrow> sessions w
      | Some s \<Rightarrow> (sessions w)(sid \<mapsto> s\<lparr>analyzed := True\<rparr>))"
  by (auto simp add: finalizeSession_def split: option.splits)

lemma finalize_console:
  "console (finalizeSession e sid w) =
     console w @ (case sessions w sid of None \<Rightarrow> []
       | Some s \<Rightarrow> if analyzed s then []
          else [SessionFinalizing sid, ProcessingLogs sid False,
                if pyScript_exists e then RunningAnalyzer sid else AnalyzerNotFound])"
  by (simp add: finalizeSession_def pla_console split: option.splits)

lemma finalize_procs:
  "procs (finalizeSession e sid w) =
     procs w @ (case sessions w sid of None \<Rightarrow> []
       | Some s \<Rightarrow> if \<not> analyzed s \<and> pyScript_exists e
           then [(next_pid w, \<lparr>proc_sid = sid, proc_newLogsOnly = False,
                   proc_input = CombinedJson sid (folderName_of e s), pyOutput = []\<rparr>)]
           else [])"
  by (simp add: finalizeSession_def pla_procs folderName_of_def split: option.splits)

lemma finalize_next_pid:
  "next_pid (finalizeSession e sid w) =
     (case sessions w sid of None \<Rightarrow> next_pid w
       | Some s \<Rightarrow> if \<not> analyzed s \<and> pyScript_exists e then Suc (next_pid w) else next_pid w)"
  by (simp add: finalizeSession_def pla_next_pid split: option.splits)

lemma finalize_fs_log:
  "fs_log (finalizeSession e sid w) =
     fs_log w @ (case sessions w sid of None \<Rightarrow> []
       | Some s \<Rightarrow> if analyzed s then [] else
          (if dir_exists w (AnalysisFolder sid (folderName_of e s)) then []
           else [MkDir (AnalysisFolder sid (folderName_of e s))]) @
          [WriteFile (CombinedJson sid (folderName_of e s)) (LogsSnapshot (logs s))])"
  by (simp add: finalizeSession_def pla_fs_log folderName_of_def dir_exists_def console_log_def split: option.splits)

text \<open>What \<^verbatim>\<open>setupSessionTimeout\<close> changes.\<close>

lemma setup_fields [simp]:
  "sessions (setupSessionTimeout e sid w) = sessions w"
  "procs (setupSessionTimeout e sid w) = procs w"
  "next_pid (setupSessionTimeout e sid w) = next_pid w"
  "fs_log (setupSessionTimeout e sid w) = fs_log w"
  "console (setupSessionTimeout e sid w) = console w"
  "next_timer (setupSessionTimeout e sid w) = Suc (next_timer w)"
  "sessionTimeouts (setupSessionTimeout e sid w) = (sessionTimeouts w)(sid \<mapsto> next_timer w)"
  by (simp_all add: setupSessionTimeout_def Let_def split: option.splits)

lemma setup_timers:
  "timers (setupSessionTimeout e sid w) =
     (case sessionTimeouts w sid of None \<Rightarrow> timers w
      | Some h \<Rightarrow> filter (\<lambda>(h', t). h' \<noteq> h) (timers w)) @
     [(next_timer w, \<lparr>timer_sid = sid, timer_due = now_ms e + SESSION_TIMEOUT\<rparr>)]"
  by (simp add: setupSessionTimeout_def Let_def split: option.splits)

lemma timeout_callback_fields [simp]:
  "timers (timeout_callback e sid w) = timers w"
  "next_timer (timeout_callback e sid w) = next_timer w"
  "sessionTimeouts (timeout_callback e sid w) = (sessionTimeouts w)(sid := None)"
  by (simp_all add: timeout_callback_def Let_def split: option.splits)

lemma timeout_callback_sessions:
  "sessions (timeout_callback e sid w) =
     (case sessions w sid of None \<Rightarrow> sessions w
      | Some s \<Rightarrow> (sessions w)(sid \<mapsto> s\<lparr>timedOut := True, isClosed := True, analyzed := True\<rparr>))"
  by (simp add: timeout_callback_def Let_def finalize_sessions split: option.splits)

lemma timeout_callback_console:
  "console (timeout_callback e sid w) =
     console w @ [SessionTimedOut sid] @
       (case sessions w sid of None \<Rightarrow> []
        | Some s \<Rightarrow> if analyzed s then []
            else [SessionFinalizing sid, ProcessingLogs sid False,
                  if pyScript_exists e then RunningAnalyzer sid else AnalyzerNotFound])"
  by (simp add: timeout_callback_def Let_def finalize_console split: option.splits)

lemma timeout_callback_procs:
  "procs (timeout_callback e sid w) =
     procs w @ (case sessions w sid of None \<Rightarrow> []
       | Some s \<Rightarrow> if \<not> analyzed s \<and> pyScript_exists e
           then [(next_pid w, \<lparr>proc_sid = sid, proc_newLogsOnly = False,
                   proc_input = CombinedJson sid (folderName_of e s), pyOutput = []\<rparr>)]
           else [])"
  by (simp add: timeout_callback_def Let_def finalize_procs folderName_of_def split: option.splits)

lemma timeout_callback_analyzed_noop:
  "sessions w sid = Some s \<Longrightarrow> analyzed s \<Longrightarrow>
   timeout_callback e sid w =
     w\<lparr>console := console w @ [SessionTimedOut sid],
       sessions := (sessions w)(sid \<mapsto> s\<lparr>timedOut := True, isClosed := True\<rparr>),
       sessionTimeouts := (sessionTimeouts w)(sid := None)\<rparr>"
  by (simp add: timeout_callback_def Let_def finalizeSession_def console_log_def)

lemma close_handler_fields [simp]:
  "sessions (close_handler parse p code w) = sessions w"
  "sessionTimeouts (close_handler parse p code w) = sessionTimeouts w"
  "timers (close_handler parse p code w) = timers w"
  "next_timer (close_handler parse p code w) = next_timer w"
  "procs (close_handler parse p code w) = procs w"
  "next_pid (close_handler parse p code w) = next_pid w"
  by (simp_all add: close_handler_def Let_def split: option.splits)

lemma close_handler_no_final [simp]:
  "count_list (console (close_handler parse p code w)) (SessionFinalizing x) =
     count_list (console w) (SessionFinalizing x)"
  "count_list (console (close_handler parse p code w)) (ProcessingLogs x b) =
     count_list (console w) (ProcessingLogs x b)"
  by (simp_all add: close_handler_def Let_def split: option.splits)

lemma on_close_fields [simp]:
  "sessions (on_close parse pid code w) = sessions w"
  "sessionTimeouts (on_close parse pid code w) = sessionTimeouts w"
  "timers (on_close parse pid code w) = timers w"
  "next_timer (on_close parse pid code w) = next_timer w"
  "next_pid (on_close parse pid code w) = next_pid w"
  "count_list (console (on_close parse pid code w)) (SessionFinalizing x) =
     count_list (console w) (SessionFinalizing x)"
  "count_list (console (on_close parse pid code w)) (ProcessingLogs x b) =
     count_list (console w) (ProcessingLogs x b)"
  by (simp_all add: on_close_def split: option.splits)

lemma on_stdout_fields [simp]:
  "sessions (on_stdout pid d w) = sessions w"
  "sessionTimeouts (on_stdout pid d w) = sessionTimeouts w"
  "timers (on_stdout pid d w) = timers w"
  "next_timer (on_stdout pid d w) = next_timer w"
  "next_pid (on_stdout pid d w) = next_pid w"
  "fs_log (on_stdout pid d w) = fs_log w"
  "console (on_stdout pid d w) = console w"
  by (simp_all add: on_stdout_def)

lemma on_stderr_fields [simp]:
  "sessions (on_stderr pid d w) = sessions w"
  "sessionTimeouts (on_stderr pid d w) = sessionTimeouts w"
  "timers (on_stderr pid d w) = timers w"
  "next_timer (on_stderr pid d w) = next_timer w"
  "procs (on_stderr pid d w) = procs w"
  "next_pid (on_stderr pid d w) = next_pid w"
  "fs_log (on_stderr pid d w) = fs_log w"
  "count_list (console (on_stderr pid d w)) (SessionFinalizing x) =
     count_list (console w) (SessionFinalizing x)"
  "count_list (console (on_stderr pid d w)) (ProcessingLogs x b) =
     count_list (console w) (ProcessingLogs x b)"
  by (simp_all add: on_stderr_def split: option.splits)

text \<open>What the handler does after the loop.\<close>

lemma later_fields [simp]:
  "now_ms (later e) = now_ms e"
  "now_iso (later e) = now_iso_later e"
  "pyScript_exists (later e) = pyScript_exists_later e"
  by (simp_all add: later_def)

lemma after_ingest_sessions:
  "sessions (after_ingest e sid w) =
     (case sessions w sid of None \<Rightarrow> sessions w
      | Some s \<Rightarrow> if isClosed s then (sessions w)(sid \<mapsto> s\<lparr>analyzed := True\<rparr>) else sessions w)"
  by (simp add: after_ingest_def Let_def finalize_sessions split: option.splits)

lemma after_ingest_timers [simp]:
  "next_timer (after_ingest e sid w) = Suc (next_timer w)"
  "sessionTimeouts (after_ingest e sid w) = (sessionTimeouts w)(sid \<mapsto> next_timer w)"
  "timers (after_ingest e sid w) = timers (setupSessionTimeout e sid w)"
  by (simp_all add: after_ingest_def Let_def setup_timers split: option.splits)

lemma after_ingest_console:
  "console (after_ingest e sid w) =
     console w @ (case sessions w sid of None \<Rightarrow> []
       | Some s \<Rightarrow>
           [ProcessingLogs sid True, if pyScript_exists e then RunningAnalyzer sid else AnalyzerNotFound] @
           (if isClosed s \<and> \<not> analyzed s
            then [SessionFinalizing sid, ProcessingLogs sid False,
                  if pyScript_exists_later e then RunningAnalyzer sid else AnalyzerNotFound]
            else []))"
  by (simp add: after_ingest_def Let_def finalize_console pla_console split: option.splits)

lemma after_ingest_procs:
  "procs (after_ingest e sid w) =
     procs w @ (case sessions w sid of None \<Rightarrow> []
       | Some s \<Rightarrow>
          (if pyScript_exists e
           then [(next_pid w, \<lparr>proc_sid = sid, proc_newLogsOnly = True,
                   proc_input = CombinedJson sid (folderName_of e s), pyOutput = []\<rparr>)]
           else []) @
          (if isClosed s \<and> \<not> analyzed s \<and> pyScript_exists_later e
           then [(if pyScript_exists e then Suc (next_pid w) else next_pid w,
                  \<lparr>proc_sid = sid, proc_newLogsOnly = False,
                   proc_input = CombinedJson sid (folderName_of (later e) s), pyOutput = []\<rparr>)]
           else []))"
  by (simp add: after_ingest_def Let_def finalize_procs pla_procs pla_next_pid split: option.splits)

subsection \<open>The ways a request can end\<close>

lemma post_log_cases [case_names reject unkeyed throw nonstring ok]:
  obtains
    (reject) "\<forall>xs. body = JArr xs \<longrightarrow> xs = []" "post_log e hdr body w = (R400, w)"
  | (unkeyed) "batch_entries body \<noteq> []"
      "session_key hdr body = None \<or> (\<exists>key \<in> set object_prototype_keys. session_key hdr body = Some key)"
      "post_log e hdr body w = (R500, w)"
  | (throw) key s1 where "session_key hdr body = Some key" "key \<notin> set object_prototype_keys"
      "ingest_entries (batch_entries body) (session_before e w key) = (Throw, s1)"
      "post_log e hdr body w = (R500, w\<lparr>sessions := (sessions w)(key \<mapsto> s1)\<rparr>)"
  | (nonstring) key s1 where "session_key hdr body = Some key" "key \<notin> set object_prototype_keys"
      "\<forall>sid. requested_id hdr body \<noteq> Some (JStr sid)"
      "ingest_entries (batch_entries body) (session_before e w key) = (Normal, s1)"
      "post_log e hdr body w =
         (R500, w\<lparr>sessions := (sessions w)(key \<mapsto> s1\<lparr>lastActivityTime := now_ms e\<rparr>)\<rparr>)"
  | (ok) sid s1 where "session_key hdr body = Some sid" "sid \<notin> set object_prototype_keys"
      "requested_id hdr body = Some (JStr sid)"
      "ingest_entries (batch_entries body) (session_before e w sid) = (Normal, s1)"
      "post_log e hdr body w =
         (R200, after_ingest e sid
                  (w\<lparr>sessions := (sessions w)(sid \<mapsto> s1\<lparr>lastActivityTime := now_ms e\<rparr>)\<rparr>))"
proof (cases "\<forall>xs. body = JArr xs \<longrightarrow> xs = []")
  case True
  then have "post_log e hdr body w = (R400, w)"
    by (auto simp: post_log_def split: jsval.splits list.splits)
  with True show ?thesis by (rule reject)
next
  case False
  then obtain first rest where body: "body = JArr (first # rest)"
    by (cases body) (auto simp: neq_Nil_conv)
  then have be: "batch_entries body = first # rest" by (simp add: batch_entries_def)
  show ?thesis
  proof (cases "to_string (resolve_sessionId hdr first)")
    case (Inl err)
    with body have "session_key hdr body = None" "post_log e hdr body w = (R500, w)"
      by (simp_all add: session_key_def requested_id_def post_log_def)
    with be show ?thesis using unkeyed by simp
  next
    case (Inr key)
    from body have rq: "requested_id hdr body = Some (resolve_sessionId hdr first)"
      by (simp add: requested_id_def)
    with Inr have sk: "session_key hdr body = Some key" by (simp add: session_key_def)
    show ?thesis
    proof (cases "key \<in> set object_prototype_keys")
      case True
      with body Inr have "post_log e hdr body w = (R500, w)"
        by (simp add: post_log_def Let_def)
      with be sk True show ?thesis using unkeyed by auto
    next
      case notproto: False
      obtain c s1 where ing: "ingest_entries (first # rest) (session_before e w key) = (c, s1)"
        by (cases "ingest_entries (first # rest) (session_before e w key)")
      show ?thesis
      proof (cases c)
        case Throw
        with body Inr notproto ing
        have "post_log e hdr body w = (R500, w\<lparr>sessions := (sessions w)(key \<mapsto> s1)\<rparr>)"
          by (simp add: post_log_def Let_def session_before_def)
        with sk notproto ing Throw be show ?thesis using throw by simp
      next
        case Normal
        show ?thesis
        proof (cases "\<exists>sid. resolve_sessionId hdr first = JStr sid")
          case True
          then obtain sid where r: "resolve_sessionId hdr first = JStr sid" by blast
          with Inr have ks: "key = sid" by simp
          from body Inr notproto ing Normal r
          have "post_log e hdr body w =
             (R200, after_ingest e sid
                  (w\<lparr>sessions := (sessions w)(key \<mapsto> s1\<lparr>lastActivityTime := now_ms e\<rparr>)\<rparr>))"
            by (simp add: post_log_def Let_def session_before_def)
          with sk notproto ing Normal be ks rq r show ?thesis using ok by simp
        next
          case False
          with body Inr notproto ing Normal
          have "post_log e hdr body w =
             (R500, w\<lparr>sessions := (sessions w)(key \<mapsto> s1\<lparr>lastActivityTime := now_ms e\<rparr>)\<rparr>)"
            by (cases "resolve_sessionId hdr first") (simp_all add: post_log_def Let_def session_before_def)
          with sk notproto ing Normal be rq False show ?thesis using nonstring by simp
        qed
      qed
    qed
  qed
qed

subsection \<open>Finalization steps\<close>

lemma finalize_step_refl: "finalize_step w w x"
  by (simp add: finalize_step_def)

lemma finalize_step_trans:
  "finalize_step w w' x \<Longrightarrow> finalize_step w' w'' x \<Longrightarrow> finalize_step w w'' x"
  by (auto simp: finalize_step_def)

lemma finalize_step_same:
  "sessions w' = sessions w \<Longrightarrow>
   count_list (console w') (SessionFinalizing x) = count_list (console w) (SessionFinalizing x) \<Longrightarrow>
   count_list (console w') (ProcessingLogs x False) = count_list (console w) (ProcessingLogs x False) \<Longrightarrow>
   finalize_step w w' x"
  by (simp add: finalize_step_def analyzed_of_def finalizations_def final_passes_def)

lemma finalize_step_store:
  "analyzed s1 = analyzed (session_before e w key) \<Longrightarrow>
   finalize_step w (w\<lparr>sessions := (sessions w)(key \<mapsto> s1)\<rparr>) x"
  by (auto simp: finalize_step_def analyzed_of_def finalizations_def final_passes_def
        session_before_def new_session_def split: option.splits)

lemma finalize_step_finalizeSession: "finalize_step w (finalizeSession e sid w) x"
  by (auto simp: finalize_step_def analyzed_of_def finalizations_def final_passes_def
        finalize_sessions finalize_console split: option.splits)

lemma finalize_step_pla: "finalize_step w (processLogsAndAnalyze e sid True w) x"
  by (rule finalize_step_same) (simp_all add: pla_console split: option.splits)

lemma finalize_step_setup: "finalize_step w (setupSessionTimeout e sid w) x"
  by (rule finalize_step_same) simp_all

lemma finalize_step_after_ingest: "finalize_step w (after_ingest e sid w) x"
proof -
  let ?w1 = "processLogsAndAnalyze e sid True w"
  let ?w2 = "setupSessionTimeout e sid ?w1"
  have a: "finalize_step w ?w2 x"
    using finalize_step_pla finalize_step_setup by (rule finalize_step_trans)
  have "after_ingest e sid w = ?w2 \<or> after_ingest e sid w = finalizeSession (later e) sid ?w2"
    by (simp add: after_ingest_def Let_def split: option.splits)
  then show ?thesis
    using a finalize_step_finalizeSession [of ?w2 "later e" sid x] finalize_step_trans by metis
qed

lemma ingest_entries_analyzed_eq:
  "ingest_entries xs s = (c, s1) \<Longrightarrow> analyzed s1 = analyzed s"
  using ingest_entries_fields(1) [of xs s] by simp

lemma finalize_step_post_log: "finalize_step w (snd (post_log e hdr body w)) x"
proof (cases e hdr body w rule: post_log_cases)
  case reject
  then show ?thesis by (simp add: finalize_step_refl)
next
  case unkeyed
  then show ?thesis by (simp add: finalize_step_refl)
next
  case (throw key s1)
  then show ?thesis by (simp add: finalize_step_store ingest_entries_analyzed_eq)
next
  case (nonstring key s1)
  then show ?thesis by (simp add: finalize_step_store ingest_entries_analyzed_eq)
next
  case (ok sid s1)
  let ?w1 = "w\<lparr>sessions := (sessions w)(sid \<mapsto> s1\<lparr>lastActivityTime := now_ms e\<rparr>)\<rparr>"
  from ok have "finalize_step w ?w1 x"
    by (simp add: finalize_step_store ingest_entries_analyzed_eq)
  then have "finalize_step w (after_ingest e sid ?w1) x"
    using finalize_step_after_ingest by (rule finalize_step_trans)
  with ok show ?thesis by simp
qed

lemma finalize_step_timeout_callback: "finalize_step w (timeout_callback e sid w) x"
  by (auto simp: finalize_step_def analyzed_of_def finalizations_def final_passes_def
        timeout_callback_sessions timeout_callback_console split: option.splits)

lemma finalize_step_clearTimeout: "finalize_step w (clearTimeout h w) x"
  by (rule finalize_step_same) simp_all

lemma finalize_step_timer_fire: "finalize_step w (timer_fire e h w) x"
  using finalize_step_trans [OF finalize_step_clearTimeout finalize_step_timeout_callback]
  by (simp add: timer_fire_def finalize_step_refl split: option.splits)

lemma finalize_step_step: "finalize_step w (step parse ev w) x"
proof (cases ev)
  case (Pair e evt)
  show ?thesis
  proof (cases evt)
    case (PostLog hdr body)
    with Pair show ?thesis by (simp add: finalize_step_post_log)
  next
    case (TimerFire h)
    with Pair show ?thesis by (simp add: finalize_step_timer_fire)
  next
    case (ProcStdout pid d)
    with Pair show ?thesis by (simp add: finalize_step_same)
  next
    case (ProcStderr pid d)
    with Pair show ?thesis by (simp add: finalize_step_same)
  next
    case (ProcClose pid code)
    with Pair show ?thesis by (simp add: finalize_step_same)
  qed
qed

lemma finalize_step_run: "finalize_step w (run parse evs w) x"
proof (induction evs arbitrary: w)
  case Nil
  show ?case by (simp add: finalize_step_refl)
next
  case (Cons ev evs)
  show ?case
    using finalize_step_trans [OF finalize_step_step Cons.IH] by simp
qed

subsection \<open>Logs and start time along a run\<close>

lemma scan_stats_est_step:
  "earliestStatsStartTime (snd (scan_stats xs s)) = earliestStatsStartTime s \<or>
   (\<not> truthy (earliestStatsStartTime s) \<and> truthy (earliestStatsStartTime (snd (scan_stats xs s))))"
proof (induction xs arbitrary: s)
  case Nil
  show ?case by simp
next
  case (Cons x xs)
  show ?case
  proof (cases "get_prop x ''startTime''")
    case (Inl a)
    then show ?thesis by simp
  next
    case (Inr st)
    show ?thesis
    proof (cases "truthy st \<and> \<not> truthy (earliestStatsStartTime s)")
      case True
      with Inr scan_stats_set [of "s\<lparr>earliestStatsStartTime := st\<rparr>" xs] show ?thesis by simp
    next
      case False
      with Inr Cons.IH [of s] show ?thesis by auto
    qed
  qed
qed

lemma ingest_entry_est_step:
  "earliestStatsStartTime (snd (ingest_entry x s)) = earliestStatsStartTime s \<or>
   (\<not> truthy (earliestStatsStartTime s) \<and> truthy (earliestStatsStartTime (snd (ingest_entry x s))))"
  using scan_stats_est_step [of "forin_values (projr (get_prop x ''rawStats''))" "s\<lparr>logs := logs s @ [x]\<rparr>"]
  by (auto simp: ingest_entry_def Let_def split: sum.splits completion.splits prod.splits)

lemma ingest_entries_est_step:
  "earliestStatsStartTime (snd (ingest_entries xs s)) = earliestStatsStartTime s \<or>
   (\<not> truthy (earliestStatsStartTime s) \<and> truthy (earliestStatsStartTime (snd (ingest_entries xs s))))"
proof (induction xs arbitrary: s)
  case Nil
  show ?case by simp
next
  case (Cons x xs)
  obtain c s' where r: "ingest_entry x s = (c, s')" by (cases "ingest_entry x s")
  show ?case
  proof (cases c)
    case Normal
    with r Cons.IH [of s'] ingest_entry_est_step [of x s] show ?thesis by auto
  next
    case Throw
    with r ingest_entry_est_step [of x s] show ?thesis by auto
  qed
qed

lemma ingest_entries_est:
  "fst (ingest_entries xs s) = Normal \<Longrightarrow>
   earliestStatsStartTime (snd (ingest_entries xs s)) =
     first_write (earliestStatsStartTime s) (startTimes xs)"
proof (induction xs arbitrary: s)
  case Nil
  show ?case by (simp add: startTimes_def first_write_def)
next
  case (Cons x xs)
  obtain c s' where r: "ingest_entry x s = (c, s')" by (cases "ingest_entry x s")
  with Cons.prems have c: "c = Normal" by (cases c) auto
  from r c have e1: "earliestStatsStartTime s' =
      first_write (earliestStatsStartTime s) (List.map_filter carried_startTime (stat_objects x))"
    using ingest_entry_est [of x s] by simp
  from Cons.prems r c have "fst (ingest_entries xs s') = Normal" by simp
  from Cons.IH [OF this] have e2: "earliestStatsStartTime (snd (ingest_entries xs s')) =
      first_write (earliestStatsStartTime s') (startTimes xs)" .
  have st: "startTimes (x # xs) = List.map_filter carried_startTime (stat_objects x) @ startTimes xs"
    by (simp add: startTimes_def List.map_filter_def)
  from r c e1 e2 st show ?case
    by (simp add: first_write_append truthy_startTimes)
qed

lemma startTimes_append: "startTimes (xs @ ys) = startTimes xs @ startTimes ys"
  by (simp add: startTimes_def List.map_filter_def)

lemma truthy_in_startTimes: "t \<in> set (startTimes xs) \<Longrightarrow> truthy t"
  unfolding startTimes_def by (rule truthy_startTimes)

text \<open>The logs and the start time of a session, handler by handler.\<close>

lemma store_logs_of:
  "logs_of (w\<lparr>sessions := (sessions w)(key \<mapsto> s)\<rparr>) x = (if x = key then logs s else logs_of w x)"
  by (simp add: logs_of_def)

lemma store_earliest_of:
  "earliest_of (w\<lparr>sessions := (sessions w)(key \<mapsto> s)\<rparr>) x =
     (if x = key then earliestStatsStartTime s else earliest_of w x)"
  by (simp add: earliest_of_def)

lemma session_before_logs: "logs (session_before e w key) = logs_of w key"
  by (simp add: session_before_def logs_of_def new_session_def split: option.splits)

lemma session_before_earliest: "earliestStatsStartTime (session_before e w key) = earliest_of w key"
  by (simp add: session_before_def earliest_of_def new_session_def split: option.splits)

lemma after_ingest_logs_of [simp]: "logs_of (after_ingest e sid w) x = logs_of w x"
  by (simp add: logs_of_def after_ingest_sessions split: option.splits)

lemma after_ingest_earliest_of [simp]: "earliest_of (after_ingest e sid w) x = earliest_of w x"
  by (simp add: earliest_of_def after_ingest_sessions split: option.splits)

lemma timer_fire_logs_of [simp]: "logs_of (timer_fire e h w) x = logs_of w x"
  by (simp add: logs_of_def timer_fire_def timeout_callback_sessions split: option.splits)

lemma timer_fire_earliest_of [simp]: "earliest_of (timer_fire e h w) x = earliest_of w x"
  by (simp add: earliest_of_def timer_fire_def timeout_callback_sessions split: option.splits)

lemma post_log_other_session:
  "session_key hdr body \<noteq> Some x \<Longrightarrow>
   logs_of (snd (post_log e hdr body w)) x = logs_of w x \<and>
   earliest_of (snd (post_log e hdr body w)) x = earliest_of w x"
  by (cases e hdr body w rule: post_log_cases) (auto simp: store_logs_of store_earliest_of)

lemma post_log_accepted_session:
  assumes "session_key hdr body = Some x" "fst (post_log e hdr body w) = R200"
  shows "logs_of (snd (post_log e hdr body w)) x = logs_of w x @ batch_entries body \<and>
         earliest_of (snd (post_log e hdr body w)) x =
           first_write (earliest_of w x) (startTimes (batch_entries body))"
proof (cases e hdr body w rule: post_log_cases)
  case (ok sid s1)
  with assms have x: "x = sid" by simp
  from ok have n: "fst (ingest_entries (batch_entries body) (session_before e w sid)) = Normal"
    and s1: "s1 = snd (ingest_entries (batch_entries body) (session_before e w sid))" by simp_all
  from ingest_entries_logs_Normal [OF n] ingest_entries_est [OF n] ok(5) x s1
  show ?thesis
    by (simp add: store_logs_of store_earliest_of session_before_logs session_before_earliest)
qed (use assms in simp_all)

lemma post_log_any_session:
  "(\<exists>ys. logs_of (snd (post_log e hdr body w)) x = logs_of w x @ ys) \<and>
   (earliest_of (snd (post_log e hdr body w)) x = earliest_of w x \<or>
    (\<not> truthy (earliest_of w x) \<and> truthy (earliest_of (snd (post_log e hdr body w)) x)))"
proof (cases e hdr body w rule: post_log_cases)
  case reject
  then show ?thesis by simp
next
  case unkeyed
  then show ?thesis by simp
next
  case (throw key s1)
  then have s1: "s1 = snd (ingest_entries (batch_entries body) (session_before e w key))" by simp
  show ?thesis
    using ingest_entries_logs_prefix [of "batch_entries body" "session_before e w key"]
      ingest_entries_est_step [of "batch_entries body" "session_before e w key"] throw(4) s1
    by (auto simp: store_logs_of store_earliest_of session_before_logs session_before_earliest)
next
  case (nonstring key s1)
  then have s1: "s1 = snd (ingest_entries (batch_entries body) (session_before e w key))" by simp
  show ?thesis
    using ingest_entries_logs_prefix [of "batch_entries body" "session_before e w key"]
      ingest_entries_est_step [of "batch_entries body" "session_before e w key"] nonstring(5) s1
    by (auto simp: store_logs_of store_earliest_of session_before_logs session_before_earliest)
next
  case (ok key s1)
  then have s1: "s1 = snd (ingest_entries (batch_entries body) (session_before e w key))" by simp
  show ?thesis
    using ingest_entries_logs_prefix [of "batch_entries body" "session_before e w key"]
      ingest_entries_est_step [of "batch_entries body" "session_before e w key"] ok(5) s1
    by (auto simp: store_logs_of store_earliest_of session_before_logs session_before_earliest)
qed

lemma step_other_events:
  assumes "\<forall>hdr body. ev \<noteq> PostLog hdr body"
  shows "logs_of (step parse (e, ev) w) x = logs_of w x \<and>
         earliest_of (step parse (e, ev) w) x = earliest_of w x"
proof (cases ev)
  case (PostLog hdr body)
  with assms show ?thesis by simp
next
  case (TimerFire h)
  then show ?thesis by simp
next
  case (ProcStdout pid d)
  then show ?thesis by (simp add: logs_of_def earliest_of_def)
next
  case (ProcStderr pid d)
  then show ?thesis by (simp add: logs_of_def earliest_of_def)
next
  case (ProcClose pid code)
  then show ?thesis by (simp add: logs_of_def earliest_of_def)
qed

lemma step_any_session:
  "(\<exists>ys. logs_of (step parse ev w) x = logs_of w x @ ys) \<and>
   (earliest_of (step parse ev w) x = earliest_of w x \<or>
    (\<not> truthy (earliest_of w x) \<and> truthy (earliest_of (step parse ev w) x)))"
proof (cases ev)
  case (Pair e evt)
  show ?thesis
  proof (cases "\<exists>hdr body. evt = PostLog hdr body")
    case True
    then obtain hdr body where "evt = PostLog hdr body" by blast
    with Pair post_log_any_session [of e hdr body w x] show ?thesis by simp
  next
    case False
    with Pair step_other_events [of evt parse e w x] show ?thesis by simp
  qed
qed

lemma run_any_session:
  "(\<exists>ys. logs_of (run parse evs w) x = logs_of w x @ ys) \<and>
   (earliest_of (run parse evs w) x = earliest_of w x \<or>
    (\<not> truthy (earliest_of w x) \<and> truthy (earliest_of (run parse evs w) x)))"
proof (induction evs arbitrary: w)
  case Nil
  show ?case by simp
next
  case (Cons ev evs)
  from Cons.IH [of "step parse ev w"] step_any_session [of parse ev w x]
  show ?case by auto
qed

lemma run_accepted_session:
  "accepted_for parse x evs w \<Longrightarrow>
   logs_of (run parse evs w) x = logs_of w x @ batches_for x evs \<and>
   earliest_of (run parse evs w) x = first_write (earliest_of w x) (startTimes (batches_for x evs))"
proof (induction evs arbitrary: w)
  case Nil
  show ?case by (simp add: startTimes_def first_write_def)
next
  case (Cons a evs)
  obtain e ev where a: "a = (e, ev)" by (cases a)
  from Cons.prems a have acc: "accepted_for parse x evs (step parse (e, ev) w)" by simp
  note IH = Cons.IH [OF acc]
  show ?case
  proof (cases "\<exists>hdr body. ev = PostLog hdr body")
    case False
    then have "batches_for x ((e, ev) # evs) = batches_for x evs" by (cases ev) auto
    with False a IH step_other_events [of ev parse e w x] show ?thesis by simp
  next
    case True
    then obtain hdr body where ev: "ev = PostLog hdr body" by blast
    show ?thesis
    proof (cases "session_key hdr body = Some x")
      case False
      with ev a IH post_log_other_session [of hdr body x e w] show ?thesis by simp
    next
      case key: True
      with Cons.prems a ev have "fst (post_log e hdr body w) = R200" by simp
      from post_log_accepted_session [OF key this] key ev a IH show ?thesis
        by (simp add: startTimes_append first_write_append truthy_in_startTimes)
    qed
  qed
qed

subsection \<open>The response does not depend on the state\<close>

lemma scan_stats_completion: "fst (scan_stats xs s) = fst (scan_stats xs s')"
proof (induction xs arbitrary: s s')
  case Nil
  show ?case by simp
next
  case (Cons x xs)
  show ?case
  proof (cases "get_prop x ''startTime''")
    case (Inl a)
    then show ?thesis by simp
  next
    case (Inr st)
    then show ?thesis using Cons.IH by simp
  qed
qed

lemma ingest_entry_completion: "fst (ingest_entry x s) = fst (ingest_entry x s')"
  using scan_stats_completion
    [of "forin_values (projr (get_prop x ''rawStats''))" "s\<lparr>logs := logs s @ [x]\<rparr>" "s'\<lparr>logs := logs s' @ [x]\<rparr>"]
  by (auto simp: ingest_entry_def Let_def split: sum.splits completion.splits prod.splits)

lemma ingest_entries_completion: "fst (ingest_entries xs s) = fst (ingest_entries xs s')"
proof (induction xs arbitrary: s s')
  case Nil
  show ?case by simp
next
  case (Cons x xs)
  obtain c s1 where r: "ingest_entry x s = (c, s1)" by (cases "ingest_entry x s")
  obtain c' s1' where r': "ingest_entry x s' = (c', s1')" by (cases "ingest_entry x s'")
  from r r' ingest_entry_completion [of x s s'] have "c' = c" by simp
  with r r' Cons.IH [of s1 s1'] show ?case by (cases c) simp_all
qed

lemma post_log_reject:
  "\<forall>xs. body = JArr xs \<longrightarrow> xs = [] \<Longrightarrow> post_log e hdr body w = (R400, w)"
  by (auto simp: post_log_def split: jsval.splits list.splits)

lemma post_log_response_independent:
  "fst (post_log e hdr body w) = fst (post_log e' hdr body w')"
proof -
  have i: "\<And>key. fst (ingest_entries (batch_entries body) (session_before e w key)) =
      fst (ingest_entries (batch_entries body) (session_before e' w' key))"
    by (rule ingest_entries_completion)
  note rj = post_log_reject [of body e hdr w] post_log_reject [of body e' hdr w']
  show ?thesis
  proof (cases e hdr body w rule: post_log_cases)
    case reject
    with rj show ?thesis by simp
  next
    case unkeyed
    with rj show ?thesis by (cases e' hdr body w' rule: post_log_cases) auto
  next
    case (throw key s1)
    with rj i [of key] show ?thesis by (cases e' hdr body w' rule: post_log_cases) auto
  next
    case (nonstring key s1)
    with rj i [of key] show ?thesis by (cases e' hdr body w' rule: post_log_cases) auto
  next
    case (ok sid s1)
    with rj i [of sid] show ?thesis by (cases e' hdr body w' rule: post_log_cases) auto
  qed
qed

lemma accepted_for_iff:
  "accepted_for parse sid evs w =
     (\<forall>ev \<in> set evs. case snd ev of
         PostLog hdr body \<Rightarrow>
           session_key hdr body \<noteq> Some sid \<or> fst (post_log (fst ev) hdr body init_world) = R200
       | _ \<Rightarrow> True)"
proof (induction evs arbitrary: w)
  case Nil
  show ?case by simp
next
  case (Cons a evs)
  obtain e ev where a: "a = (e, ev)" by (cases a)
  show ?case
    using Cons.IH [of "step parse (e, ev) w"] a
      post_log_response_independent [of e _ _ w e init_world]
    by (cases ev) auto
qed

subsection \<open>Timers\<close>

lemma timers_ok_init: "timers_ok init_world"
  by (simp add: timers_ok_def init_world_def)

lemma timers_ok_same:
  "timers w' = timers w \<Longrightarrow> next_timer w' = next_timer w \<Longrightarrow>
   sessionTimeouts w' = sessionTimeouts w \<Longrightarrow> dom (sessions w) \<subseteq> dom (sessions w') \<Longrightarrow>
   timers_ok w \<Longrightarrow> timers_ok w'"
  unfolding timers_ok_def by (simp add: subset_iff domIff split_beta)

lemma distinct_single: "distinct ys \<Longrightarrow> set ys \<subseteq> {h} \<Longrightarrow> length ys \<le> 1"
proof -
  assume d: "distinct ys" and s: "set ys \<subseteq> {h}"
  from d have "length ys = card (set ys)" by (simp add: distinct_card)
  also from s have "\<dots> \<le> card {h}" by (intro card_mono) auto
  finally show ?thesis by simp
qed

lemma pending_at_most_one:
  assumes "timers_ok w"
  shows "length (pending_for w sid) \<le> 1"
proof (cases "sessionTimeouts w sid")
  case None
  with assms have "pending_for w sid = []"
    by (auto simp: timers_ok_def pending_for_def filter_empty_conv)
  then show ?thesis by simp
next
  case (Some h)
  from assms have d: "distinct (map fst (pending_for w sid))"
    by (simp add: timers_ok_def pending_for_def distinct_map_filter)
  from assms Some have "set (map fst (pending_for w sid)) \<subseteq> {h}"
    by (auto simp: timers_ok_def pending_for_def)
  from distinct_single [OF d this] show ?thesis by simp
qed

lemma timers_ok_setup:
  assumes ok: "timers_ok w" and ex: "sessions w sid \<noteq> None"
  shows "timers_ok (setupSessionTimeout e sid w)"
proof -
  let ?old = "case sessionTimeouts w sid of None \<Rightarrow> timers w
      | Some h \<Rightarrow> filter (\<lambda>(h', t). h' \<noteq> h) (timers w)"
  have sub: "set ?old \<subseteq> set (timers w)" by (auto split: option.splits)
  have d: "distinct (map fst ?old)"
    using ok by (auto simp: timers_ok_def distinct_map_filter split: option.splits)
  have nosid: "\<And>h t. (h, t) \<in> set ?old \<Longrightarrow> timer_sid t \<noteq> sid"
    using ok by (auto simp: timers_ok_def split: option.splits)
  have lt: "\<And>h t. (h, t) \<in> set (timers w) \<Longrightarrow> h < next_timer w"
    using ok by (auto simp: timers_ok_def)
  have st: "\<And>h t. (h, t) \<in> set (timers w) \<Longrightarrow>
      sessionTimeouts w (timer_sid t) = Some h \<and> sessions w (timer_sid t) \<noteq> None"
    using ok by (auto simp: timers_ok_def)
  have lt2: "\<And>x h. sessionTimeouts w x = Some h \<Longrightarrow> h < next_timer w"
    using ok by (auto simp: timers_ok_def)
  have inj: "\<And>x y h. sessionTimeouts w x = Some h \<Longrightarrow> sessionTimeouts w y = Some h \<Longrightarrow> x = y"
    using ok unfolding timers_ok_def by blast
  have fresh: "next_timer w \<notin> fst ` set ?old"
    using lt sub by fastforce
  show ?thesis
    unfolding timers_ok_def setup_timers setup_fields
  proof (intro conjI)
    show "distinct (map fst (?old @ [(next_timer w,
        \<lparr>timer_sid = sid, timer_due = now_ms e + SESSION_TIMEOUT\<rparr>)]))"
      using d fresh by simp
    show "\<forall>(h, t)\<in>set (?old @ [(next_timer w,
        \<lparr>timer_sid = sid, timer_due = now_ms e + SESSION_TIMEOUT\<rparr>)]).
        h < Suc (next_timer w) \<and>
        ((sessionTimeouts w)(sid \<mapsto> next_timer w)) (timer_sid t) = Some h \<and>
        sessions w (timer_sid t) \<noteq> None"
    proof (clarify)
      fix h t
      assume m: "(h, t) \<in> set (?old @ [(next_timer w,
        \<lparr>timer_sid = sid, timer_due = now_ms e + SESSION_TIMEOUT\<rparr>)])"
      show "h < Suc (next_timer w) \<and>
        ((sessionTimeouts w)(sid \<mapsto> next_timer w)) (timer_sid t) = Some h \<and>
        sessions w (timer_sid t) \<noteq> None"
      proof (cases "(h, t) \<in> set ?old")
        case True
        with sub have "(h, t) \<in> set (timers w)" by blast
        with lt [of h t] st [of h t] nosid [OF True] show ?thesis by simp
      next
        case False
        with m have "h = next_timer w" "t = \<lparr>timer_sid = sid, timer_due = now_ms e + SESSION_TIMEOUT\<rparr>"
          by auto
        with ex show ?thesis by simp
      qed
    qed
    show "\<forall>x h. ((sessionTimeouts w)(sid \<mapsto> next_timer w)) x = Some h \<longrightarrow> h < Suc (next_timer w)"
      using lt2 by (auto simp: less_Suc_eq)
    show "\<forall>x y h. ((sessionTimeouts w)(sid \<mapsto> next_timer w)) x = Some h \<and>
        ((sessionTimeouts w)(sid \<mapsto> next_timer w)) y = Some h \<longrightarrow> x = y"
      using lt2 inj by (auto split: if_splits)
  qed
qed

lemma timers_ok_after_ingest:
  assumes "timers_ok w" "sessions w sid \<noteq> None"
  shows "timers_ok (after_ingest e sid w)"
proof -
  let ?w1 = "processLogsAndAnalyze e sid True w"
  let ?w2 = "setupSessionTimeout e sid ?w1"
  from assms have "timers_ok ?w1" by (intro timers_ok_same [of ?w1 w]) simp_all
  with assms(2) have ok2: "timers_ok ?w2" by (intro timers_ok_setup) simp_all
  have "timers_ok (finalizeSession (later e) sid ?w2)"
    using ok2 by (rule timers_ok_same [rotated -1]) (auto simp: finalize_sessions split: option.splits)
  with ok2 show ?thesis
    by (simp add: after_ingest_def Let_def split: option.splits)
qed

lemma timers_ok_store:
  "timers_ok w \<Longrightarrow> timers_ok (w\<lparr>sessions := (sessions w)(key \<mapsto> s)\<rparr>)"
  by (rule timers_ok_same [rotated -1]) auto

lemma timers_ok_post_log: "timers_ok w \<Longrightarrow> timers_ok (snd (post_log e hdr body w))"
proof (cases e hdr body w rule: post_log_cases)
  case (ok sid s1)
  assume "timers_ok w"
  then have "timers_ok (w\<lparr>sessions := (sessions w)(sid \<mapsto> s1\<lparr>lastActivityTime := now_ms e\<rparr>)\<rparr>)"
    by (rule timers_ok_store)
  then have "timers_ok (after_ingest e sid
      (w\<lparr>sessions := (sessions w)(sid \<mapsto> s1\<lparr>lastActivityTime := now_ms e\<rparr>)\<rparr>))"
    by (rule timers_ok_after_ingest) simp
  with ok show ?thesis by simp
qed (simp_all add: timers_ok_store)

lemma timers_ok_timer_fire:
  assumes ok: "timers_ok w"
  shows "timers_ok (timer_fire e h w)"
proof (cases "map_of (timers w) h")
  case None
  with ok show ?thesis by (simp add: timer_fire_def)
next
  case (Some t)
  then have mem: "(h, t) \<in> set (timers w)" by (rule map_of_SomeD)
  show ?thesis
  proof (cases "timer_due t \<le> now_ms e")
    case False
    with Some ok show ?thesis by (simp add: timer_fire_def)
  next
    case True
    let ?w' = "timeout_callback e (timer_sid t) (clearTimeout h w)"
    from ok mem have sid: "sessionTimeouts w (timer_sid t) = Some h"
      by (auto simp: timers_ok_def)
    have other: "\<And>h' t'. (h', t') \<in> set (timers w) \<Longrightarrow> h' \<noteq> h \<Longrightarrow> timer_sid t' \<noteq> timer_sid t"
      using ok sid by (auto simp: timers_ok_def)
    have dom: "\<And>x. sessions w x \<noteq> None \<Longrightarrow> sessions ?w' x \<noteq> None"
      by (auto simp: timeout_callback_sessions split: option.splits)
    have "timers_ok ?w'"
      unfolding timers_ok_def
    proof (intro conjI)
      show "distinct (map fst (timers ?w'))"
        using ok by (simp add: timers_ok_def distinct_map_filter)
      show "\<forall>(h', t')\<in>set (timers ?w'). h' < next_timer ?w' \<and>
          sessionTimeouts ?w' (timer_sid t') = Some h' \<and> sessions ?w' (timer_sid t') \<noteq> None"
      proof (clarify)
        fix h' t'
        assume "(h', t') \<in> set (timers ?w')"
        then have m: "(h', t') \<in> set (timers w)" and ne: "h' \<noteq> h" by auto
        from ok m have "h' < next_timer w" "sessionTimeouts w (timer_sid t') = Some h'"
          "sessions w (timer_sid t') \<noteq> None"
          by (auto simp: timers_ok_def)
        with other [OF m ne] dom [of "timer_sid t'"]
        show "h' < next_timer ?w' \<and> sessionTimeouts ?w' (timer_sid t') = Some h' \<and>
            sessions ?w' (timer_sid t') \<noteq> None"
          by simp
      qed
      show "\<forall>sid h'. sessionTimeouts ?w' sid = Some h' \<longrightarrow> h' < next_timer ?w'"
        using ok by (auto simp: timers_ok_def split: if_splits)
      show "\<forall>x y h'. sessionTimeouts ?w' x = Some h' \<and> sessionTimeouts ?w' y = Some h' \<longrightarrow> x = y"
        using ok unfolding timers_ok_def by (simp split: if_splits)
    qed
    with Some True show ?thesis by (simp add: timer_fire_def)
  qed
qed

lemma timers_ok_step: "timers_ok w \<Longrightarrow> timers_ok (step parse ev w)"
proof -
  assume ok: "timers_ok w"
  obtain e evt where ev: "ev = (e, evt)" by (cases ev)
  show ?thesis
  proof (cases evt)
    case (PostLog hdr body)
    with ev ok show ?thesis by (simp add: timers_ok_post_log)
  next
    case (TimerFire h)
    with ev ok show ?thesis by (simp add: timers_ok_timer_fire)
  next
    case (ProcStdout pid d)
    with ev ok show ?thesis by (simp add: timers_ok_same [of "on_stdout pid d w" w])
  next
    case (ProcStderr pid d)
    with ev ok show ?thesis by (simp add: timers_ok_same [of "on_stderr pid d w" w])
  next
    case (ProcClose pid code)
    with ev ok show ?thesis by (simp add: timers_ok_same [of "on_close parse pid code w" w])
  qed
qed

lemma timers_ok_run: "timers_ok w \<Longrightarrow> timers_ok (run parse evs w)"
  by (induction evs arbitrary: w) (simp_all add: timers_ok_step)

text \<open>A superseded handle stays superseded.\<close>

lemma superseded_same:
  "timers w' = timers w \<Longrightarrow> next_timer w' = next_timer w \<Longrightarrow> superseded w h \<Longrightarrow> superseded w' h"
  by (simp add: superseded_def)

lemma superseded_after_ingest: "superseded w h \<Longrightarrow> superseded (after_ingest e sid w) h"
  by (auto simp: superseded_def setup_timers split: option.splits)

lemma superseded_post_log: "superseded w h \<Longrightarrow> superseded (snd (post_log e hdr body w)) h"
proof (cases e hdr body w rule: post_log_cases)
  case (ok sid s1)
  assume "superseded w h"
  then have "superseded (w\<lparr>sessions := (sessions w)(sid \<mapsto> s1\<lparr>lastActivityTime := now_ms e\<rparr>)\<rparr>) h"
    by (simp add: superseded_def)
  then show ?thesis using ok by (simp add: superseded_after_ingest)
qed (simp_all add: superseded_def)

lemma superseded_timer_fire: "superseded w h \<Longrightarrow> superseded (timer_fire e h' w) h"
  by (auto simp: superseded_def timer_fire_def split: option.splits)

lemma superseded_step: "superseded w h \<Longrightarrow> superseded (step parse ev w) h"
proof -
  assume s: "superseded w h"
  obtain e evt where ev: "ev = (e, evt)" by (cases ev)
  show ?thesis
  proof (cases evt)
    case (PostLog hdr body)
    with ev s show ?thesis by (simp add: superseded_post_log)
  next
    case (TimerFire h')
    with ev s show ?thesis by (simp add: superseded_timer_fire)
  next
    case (ProcStdout pid d)
    with ev s show ?thesis by (simp add: superseded_def)
  next
    case (ProcStderr pid d)
    with ev s show ?thesis by (simp add: superseded_def)
  next
    case (ProcClose pid code)
    with ev s show ?thesis by (simp add: superseded_def)
  qed
qed

lemma superseded_run: "superseded w h \<Longrightarrow> superseded (run parse evs w) h"
  by (induction evs arbitrary: w) (simp_all add: superseded_step)

lemma superseded_never_fires: "superseded w h \<Longrightarrow> timer_fire e h w = w"
proof -
  assume "superseded w h"
  then have "h \<notin> fst ` set (timers w)" by (simp add: superseded_def)
  then have "map_of (timers w) h = None" by (simp add: map_of_eq_None_iff)
  then show ?thesis by (simp add: timer_fire_def)
qed

lemma setup_pending:
  assumes ok: "timers_ok w"
  shows "pending_for (setupSessionTimeout e sid w) x =
     (if x = sid then [(next_timer w, \<lparr>timer_sid = sid, timer_due = now_ms e + 10000\<rparr>)]
      else pending_for w x)"
proof -
  let ?old = "case sessionTimeouts w sid of None \<Rightarrow> timers w
      | Some h \<Rightarrow> filter (\<lambda>(h', t). h' \<noteq> h) (timers w)"
  have st: "\<And>h t. (h, t) \<in> set (timers w) \<Longrightarrow> sessionTimeouts w (timer_sid t) = Some h"
    using ok by (auto simp: timers_ok_def)
  have inj: "\<And>x y h. sessionTimeouts w x = Some h \<Longrightarrow> sessionTimeouts w y = Some h \<Longrightarrow> x = y"
    using ok unfolding timers_ok_def by blast
  have a: "filter (\<lambda>(h, t). timer_sid t = sid) ?old = []"
    using st by (auto simp: filter_empty_conv split: option.splits)
  have b: "x \<noteq> sid \<Longrightarrow> filter (\<lambda>(h, t). timer_sid t = x) ?old = filter (\<lambda>(h, t). timer_sid t = x) (timers w)"
  proof (cases "sessionTimeouts w sid")
    case None
    then show ?thesis by simp
  next
    case (Some h0)
    assume ne: "x \<noteq> sid"
    have "\<And>h t. (h, t) \<in> set (timers w) \<Longrightarrow> timer_sid t = x \<Longrightarrow> h \<noteq> h0"
      using st inj Some ne by blast
    with Some show ?thesis
      by (auto intro!: filter_cong)
  qed
  show ?thesis
    using a b by (simp add: pending_for_def setup_timers SESSION_TIMEOUT_def)
qed

lemma pending_superseded_by_setup:
  assumes ok: "timers_ok w" and p: "(h, t) \<in> set (pending_for w sid)"
  shows "superseded (setupSessionTimeout e sid w) h"
proof -
  from p have m: "(h, t) \<in> set (timers w)" and s: "timer_sid t = sid"
    by (auto simp: pending_for_def)
  with ok have "sessionTimeouts w sid = Some h" "h < next_timer w"
    by (auto simp: timers_ok_def)
  then show ?thesis
    by (auto simp: superseded_def setup_timers)
qed

lemma fired_superseded: "timers_ok w \<Longrightarrow> map_of (timers w) h = Some t \<Longrightarrow> timer_due t \<le> now_ms e \<Longrightarrow>
   superseded (timer_fire e h w) h"
  by (auto simp: superseded_def timer_fire_def timers_ok_def dest!: map_of_SomeD)

lemma reachable_fin:
  "finalizations (run parse evs init_world) sid = (if analyzed_of (run parse evs init_world) sid then 1 else 0)"
  using finalize_step_run [of init_world parse evs sid]
  by (auto simp: finalize_step_def finalizations_def final_passes_def analyzed_of_def init_world_def)

lemma post_log_accepted_pending:
  assumes ok: "timers_ok w" and p: "post_log e hdr body w = (R200, w')"
    and k: "session_key hdr body = Some sid"
  shows "pending_for w' x =
     (if x = sid then [(next_timer w, \<lparr>timer_sid = sid, timer_due = now_ms e + 10000\<rparr>)]
      else pending_for w x) \<and>
     (\<forall>h t. (h, t) \<in> set (pending_for w sid) \<longrightarrow> superseded w' h)"
proof (cases e hdr body w rule: post_log_cases)
  case (ok sid' s1)
  with k have sid: "sid' = sid" by simp
  let ?w1 = "w\<lparr>sessions := (sessions w)(sid \<mapsto> s1\<lparr>lastActivityTime := now_ms e\<rparr>)\<rparr>"
  from ok p sid have w': "w' = after_ingest e sid ?w1" by simp
  from assms(1) have ok1: "timers_ok ?w1" by (rule timers_ok_store)
  have pf: "\<And>y. pending_for w' y = pending_for (setupSessionTimeout e sid ?w1) y"
    by (simp add: w' pending_for_def)
  have pw: "\<And>y. pending_for ?w1 y = pending_for w y"
    by (simp add: pending_for_def)
  have sup: "\<And>h. superseded w' h = superseded (setupSessionTimeout e sid ?w1) h"
    by (simp add: w' superseded_def)
  have nt: "next_timer ?w1 = next_timer w" by simp
  show ?thesis
    using setup_pending [OF ok1, of e sid x] pending_superseded_by_setup [OF ok1, of _ _ sid e]
    unfolding pf pw sup nt by auto
qed (use p in simp_all)

lemma timer_fire_due:
  assumes ok: "timers_ok w" and m: "map_of (timers w) h = Some t" and due: "timer_due t \<le> now_ms e"
  shows "(\<exists>s. sessions (timer_fire e h w) (timer_sid t) = Some s \<and> timedOut s \<and> isClosed s \<and> analyzed s) \<and>
     sessionTimeouts (timer_fire e h w) (timer_sid t) = None \<and>
     pending_for (timer_fire e h w) (timer_sid t) = []"
proof -
  from m have mem: "(h, t) \<in> set (timers w)" by (rule map_of_SomeD)
  with ok obtain s where s: "sessions w (timer_sid t) = Some s"
    by (auto simp: timers_ok_def)
  from ok have ok': "timers_ok (timer_fire e h w)" by (rule timers_ok_timer_fire)
  have st: "sessionTimeouts (timer_fire e h w) (timer_sid t) = None"
    using m due by (simp add: timer_fire_def)
  have "pending_for (timer_fire e h w) (timer_sid t) = []"
    using ok' st by (auto simp: timers_ok_def pending_for_def filter_empty_conv)
  with st s m due show ?thesis
    by (simp add: timer_fire_def timeout_callback_sessions)
qed

subsection \<open>The example states, evaluated\<close>

lemmas eval_defs = post_log_def resolve_sessionId_def object_prototype_keys_def new_session_def
  ingest_entry_def check_ice_def closing_states_def after_ingest_def processLogsAndAnalyze_def
  folderName_of_def extractTimeFromISO_def date_folder_def dir_exists_def fs_do_def console_log_def
  spawn_def setupSessionTimeout_def clearTimeout_def finalizeSession_def timeout_callback_def
  timer_fire_def on_stdout_def on_stderr_def on_close_def close_handler_def extract_json_def
  substring_def SESSION_TIMEOUT_def init_world_def later_def env0_def env_later_def env_last_def parse0_def
  closing_entry_def stats_entry_def post_log1_def finalizeSession1_def new_session1_def
  init_world1_def Let_def

lemma world_closed_eq:
  "world_closed =
     \<lparr>sessions = [''s1'' \<mapsto> \<lparr>logs = [closing_entry], isClosed = True, firstStatsTimestamp = JNull,
        earliestStatsStartTime = JNull, analyzed = True, timedOut = False, lastActivityTime = 1000\<rparr>],
      sessionTimeouts = [''s1'' \<mapsto> 0],
      timers = [(0, \<lparr>timer_sid = ''s1'', timer_due = 11000\<rparr>)], next_timer = 1,
      procs = [(0, \<lparr>proc_sid = ''s1'', proc_newLogsOnly = True,
                    proc_input = CombinedJson ''s1'' ''2025-02-26T05-46-26-093Z'', pyOutput = []\<rparr>),
               (1, \<lparr>proc_sid = ''s1'', proc_newLogsOnly = False,
                    proc_input = CombinedJson ''s1'' ''2025-02-26T05-46-26-094Z'', pyOutput = []\<rparr>)],
      next_pid = 2,
      fs_log = [MkDir (AnalysisFolder ''s1'' ''2025-02-26T05-46-26-093Z''),
                WriteFile (CombinedJson ''s1'' ''2025-02-26T05-46-26-093Z'') (LogsSnapshot [closing_entry]),
                MkDir (AnalysisFolder ''s1'' ''2025-02-26T05-46-26-094Z''),
                WriteFile (CombinedJson ''s1'' ''2025-02-26T05-46-26-094Z'') (LogsSnapshot [closing_entry])],
      console = [ProcessingLogs ''s1'' True, RunningAnalyzer ''s1'', SessionFinalizing ''s1'',
                 ProcessingLogs ''s1'' False, RunningAnalyzer ''s1'']\<rparr>"
  unfolding world_closed_def
  by (simp add: eval_defs)

lemma world_open_eq:
  "world_open =
     \<lparr>sessions = [''s1'' \<mapsto> \<lparr>logs = [stats_entry (JStr ''2025-02-26T05:46:26.093Z'')],
        isClosed = False, firstStatsTimestamp = JNull,
        earliestStatsStartTime = JStr ''2025-02-26T05:46:26.093Z'', analyzed = False,
        timedOut = False, lastActivityTime = 1000\<rparr>],
      sessionTimeouts = [''s1'' \<mapsto> 0],
      timers = [(0, \<lparr>timer_sid = ''s1'', timer_due = 11000\<rparr>)], next_timer = 1,
      procs = [(0, \<lparr>proc_sid = ''s1'', proc_newLogsOnly = True,
                    proc_input = CombinedJson ''s1'' ''05_46_26'', pyOutput = []\<rparr>)],
      next_pid = 1,
      fs_log = [MkDir (AnalysisFolder ''s1'' ''05_46_26''),
                WriteFile (CombinedJson ''s1'' ''05_46_26'')
                  (LogsSnapshot [stats_entry (JStr ''2025-02-26T05:46:26.093Z'')])],
      console = [ProcessingLogs ''s1'' True, RunningAnalyzer ''s1'']\<rparr>"
  unfolding world_open_def
  by (simp add: eval_defs)

lemma world1_closed_eq:
  "world1_closed =
     \<lparr>sessions1 = [''s1'' \<mapsto> \<lparr>logs = [closing_entry], isClosed = True, firstStatsTimestamp = JNull,
        earliestStatsStartTime = JNull, analyzed = True\<rparr>],
      procs1 = [(0, \<lparr>proc1_sid = ''s1'',
                     proc1_input = CombinedJson1 ''2025-02-26T05-46-26-094Z'' ''s1'',
                     proc1_folder = ''2025-02-26T05-46-26-094Z'', pyOutput1 = []\<rparr>)],
      next_pid1 = 1,
      fs_log1 = [WriteFile (RawLogFile ''s1'' ''2025-02-26T05-46-26-093Z'') (LogsSnapshot [closing_entry]),
                 MkDir (AnalysisFolder1 ''2025-02-26T05-46-26-094Z''),
                 WriteFile (CombinedJson1 ''2025-02-26T05-46-26-094Z'' ''s1'')
                   (LogsSnapshot [closing_entry])],
      console1 = [SessionFinalizing ''s1'']\<rparr>"
  unfolding world1_closed_def
  by (simp add: eval_defs)

lemma world1_open_eq:
  "world1_open =
     \<lparr>sessions1 = [''s1'' \<mapsto> \<lparr>logs = [stats_entry (JStr ''2025-02-26T05:46:26.093Z'')],
        isClosed = False, firstStatsTimestamp = JNull,
        earliestStatsStartTime = JStr ''2025-02-26T05:46:26.093Z'', analyzed = False\<rparr>],
      procs1 = [], next_pid1 = 0,
      fs_log1 = [WriteFile (RawLogFile ''s1'' ''2025-02-26T05-46-26-093Z'')
                   (LogsSnapshot [stats_entry (JStr ''2025-02-26T05:46:26.093Z'')])],
      console1 = []\<rparr>"
  unfolding world1_open_def
  by (simp add: eval_defs)

lemma numeric_session_key:
  "session_key None (JArr [JObj [(''sessionId'', JNum 42)]]) = Some ''42'' \<and>
   session_key None (JArr [JObj [(''sessionId'', JNumOther ''1e+21'')]]) = Some ''1e+21''"
  by (simp add: session_key_def requested_id_def resolve_sessionId_def show_int_def)

subsection \<open>What an accepted request does\<close>

lemma after_ingest_fs_log:
  "sessions w sid = Some s \<Longrightarrow> analyzed s \<or> \<not> isClosed s \<Longrightarrow>
   fs_log (after_ingest e sid w) =
     fs_log w @
       (if dir_exists w (AnalysisFolder sid (folderName_of e s)) then []
        else [MkDir (AnalysisFolder sid (folderName_of e s))]) @
       [WriteFile (CombinedJson sid (folderName_of e s)) (LogsSnapshot (logs s))]"
  by (auto simp add: after_ingest_def Let_def finalize_fs_log pla_fs_log dir_exists_def)

lemma map_of_pending:
  "timers_ok w \<Longrightarrow> pending_for w sid = [(h, t)] \<Longrightarrow> map_of (timers w) h = Some t"
proof -
  assume ok: "timers_ok w" and p: "pending_for w sid = [(h, t)]"
  from p have "(h, t) \<in> set (pending_for w sid)" by simp
  then have "(h, t) \<in> set (timers w)" by (simp add: pending_for_def)
  moreover from ok have "distinct (map fst (timers w))" by (simp add: timers_ok_def)
  ultimately show ?thesis by simp
qed

lemma analyzed_batch:
  assumes ok: "timers_ok W" and s: "sessions W sid = Some s" and a: "analyzed s"
    and p: "post_log e hdr body W = (R200, W')" and k: "session_key hdr body = Some sid"
  shows "\<exists>s'. sessions W' sid = Some s' \<and> logs s' = logs s @ batch_entries body \<and>
       lastActivityTime s' = now_ms e \<and> analyzed s' \<and>
       console W' = console W @
         [ProcessingLogs sid True, if pyScript_exists e then RunningAnalyzer sid else AnalyzerNotFound] \<and>
       fs_log W' = fs_log W @
         (if dir_exists W (AnalysisFolder sid (folderName_of e s')) then []
          else [MkDir (AnalysisFolder sid (folderName_of e s'))]) @
         [WriteFile (CombinedJson sid (folderName_of e s')) (LogsSnapshot (logs s'))] \<and>
       procs W' = procs W @
         (if pyScript_exists e
          then [(next_pid W, \<lparr>proc_sid = sid, proc_newLogsOnly = True,
                   proc_input = CombinedJson sid (folderName_of e s'), pyOutput = []\<rparr>)]
          else []) \<and>
       pending_for W' sid = [(next_timer W, \<lparr>timer_sid = sid, timer_due = now_ms e + 10000\<rparr>)] \<and>
       (now_ms e + 10000 \<le> now_ms e1 \<longrightarrow>
          timer_fire e1 (next_timer W) W' =
            W'\<lparr>timers := filter (\<lambda>(h', t). h' \<noteq> next_timer W) (timers W'),
               console := console W' @ [SessionTimedOut sid],
               sessions := (sessions W')(sid \<mapsto> s'\<lparr>timedOut := True, isClosed := True\<rparr>),
               sessionTimeouts := (sessionTimeouts W')(sid := None)\<rparr>)"
proof (cases e hdr body W rule: post_log_cases)
  case (ok sid' s1)
  with k have sid: "sid' = sid" by simp
  let ?s' = "s1\<lparr>lastActivityTime := now_ms e\<rparr>"
  let ?w1 = "W\<lparr>sessions := (sessions W)(sid \<mapsto> ?s')\<rparr>"
  from ok p sid have W': "W' = after_ingest e sid ?w1" by simp
  from ok sid s have s1: "s1 = snd (ingest_entries (batch_entries body) s)"
    by (simp add: session_before_def)
  have n: "fst (ingest_entries (batch_entries body) s) = Normal"
    using ok sid s by (simp add: session_before_def)
  have l: "logs ?s' = logs s @ batch_entries body"
    using ingest_entries_logs_Normal [OF n] s1 by simp
  have an: "analyzed ?s'" using a s1 by simp
  have ss: "sessions W' sid = Some ?s'"
    using an by (simp add: W' after_ingest_sessions)
  have okW': "timers_ok W'"
    using timers_ok_post_log [OF assms(1), of e hdr body] p by simp
  have pend: "pending_for W' sid = [(next_timer W, \<lparr>timer_sid = sid, timer_due = now_ms e + 10000\<rparr>)]"
    using post_log_accepted_pending [OF assms(1) p k, of sid] by simp
  have fire: "now_ms e + 10000 \<le> now_ms e1 \<longrightarrow>
          timer_fire e1 (next_timer W) W' =
            W'\<lparr>timers := filter (\<lambda>(h', t). h' \<noteq> next_timer W) (timers W'),
               console := console W' @ [SessionTimedOut sid],
               sessions := (sessions W')(sid \<mapsto> ?s'\<lparr>timedOut := True, isClosed := True\<rparr>),
               sessionTimeouts := (sessionTimeouts W')(sid := None)\<rparr>"
  proof
    assume due: "now_ms e + 10000 \<le> now_ms e1"
    from map_of_pending [OF okW' pend]
    have m: "map_of (timers W') (next_timer W) = Some \<lparr>timer_sid = sid, timer_due = now_ms e + 10000\<rparr>" .
    have cs: "sessions (clearTimeout (next_timer W) W') sid = Some ?s'"
      using ss by simp
    from m due timeout_callback_analyzed_noop [OF cs an, of e1]
    show "timer_fire e1 (next_timer W) W' =
            W'\<lparr>timers := filter (\<lambda>(h', t). h' \<noteq> next_timer W) (timers W'),
               console := console W' @ [SessionTimedOut sid],
               sessions := (sessions W')(sid \<mapsto> ?s'\<lparr>timedOut := True, isClosed := True\<rparr>),
               sessionTimeouts := (sessionTimeouts W')(sid := None)\<rparr>"
      by (simp add: timer_fire_def clearTimeout_def)
  qed
  have con: "console W' = console W @
         [ProcessingLogs sid True, if pyScript_exists e then RunningAnalyzer sid else AnalyzerNotFound]"
    using an by (simp add: W' after_ingest_console)
  have fs: "fs_log W' = fs_log W @
         (if dir_exists W (AnalysisFolder sid (folderName_of e ?s')) then []
          else [MkDir (AnalysisFolder sid (folderName_of e ?s'))]) @
         [WriteFile (CombinedJson sid (folderName_of e ?s')) (LogsSnapshot (logs ?s'))]"
    using an after_ingest_fs_log [of ?w1 sid ?s' e] by (simp add: W' dir_exists_def)
  have pr: "procs W' = procs W @
         (if pyScript_exists e
          then [(next_pid W, \<lparr>proc_sid = sid, proc_newLogsOnly = True,
                   proc_input = CombinedJson sid (folderName_of e ?s'), pyOutput = []\<rparr>)]
          else [])"
    using an by (simp add: W' after_ingest_procs)
  from ss l an con fs pr pend fire show ?thesis
    by (intro exI [of _ ?s']) simp
qed (use p in simp_all)

lemma accepted_in_flight:
  assumes p: "post_log e hdr body W = (R200, W')" and k: "session_key hdr body = Some sid"
  shows "\<exists>s'. sessions W' sid = Some s' \<and>
     in_flight W' sid = in_flight W sid @
       (if pyScript_exists e
        then [(next_pid W, \<lparr>proc_sid = sid, proc_newLogsOnly = True,
                proc_input = CombinedJson sid (folderName_of e s'), pyOutput = []\<rparr>)]
        else []) @
       (if isClosed s' \<and> \<not> analyzed_of W sid \<and> pyScript_exists_later e
        then [(if pyScript_exists e then Suc (next_pid W) else next_pid W,
               \<lparr>proc_sid = sid, proc_newLogsOnly = False,
                proc_input = CombinedJson sid (folderName_of (later e) s'), pyOutput = []\<rparr>)]
        else [])"
proof (cases e hdr body W rule: post_log_cases)
  case (ok sid' s1)
  with k have sid: "sid' = sid" by simp
  let ?s1 = "s1\<lparr>lastActivityTime := now_ms e\<rparr>"
  let ?w1 = "W\<lparr>sessions := (sessions W)(sid \<mapsto> ?s1)\<rparr>"
  let ?s' = "if isClosed s1 then ?s1\<lparr>analyzed := True\<rparr> else ?s1"
  from ok p sid have W': "W' = after_ingest e sid ?w1" by simp
  from ok sid have s1: "s1 = snd (ingest_entries (batch_entries body) (session_before e W sid))"
    by simp
  have an: "analyzed s1 = analyzed_of W sid"
    unfolding s1 by (simp add: session_before_def analyzed_of_def new_session_def split: option.splits)
  have ss: "sessions W' sid = Some ?s'"
    by (simp add: W' after_ingest_sessions)
  have f: "folderName_of e ?s' = folderName_of e ?s1"
    "folderName_of (later e) ?s' = folderName_of (later e) ?s1" "isClosed ?s' = isClosed s1"
    by (simp_all add: folderName_of_def)
  have inf: "in_flight W' sid = in_flight W sid @
       (if pyScript_exists e
        then [(next_pid W, \<lparr>proc_sid = sid, proc_newLogsOnly = True,
                proc_input = CombinedJson sid (folderName_of e ?s'), pyOutput = []\<rparr>)]
        else []) @
       (if isClosed ?s' \<and> \<not> analyzed_of W sid \<and> pyScript_exists_later e
        then [(if pyScript_exists e then Suc (next_pid W) else next_pid W,
               \<lparr>proc_sid = sid, proc_newLogsOnly = False,
                proc_input = CombinedJson sid (folderName_of (later e) ?s'), pyOutput = []\<rparr>)]
        else [])"
    unfolding f by (simp add: W' in_flight_def after_ingest_procs an)
  from ss inf show ?thesis by blast
qed (use p in simp_all)

subsection \<open>Extracting the JSON object from the analyzer output\<close>

lemma indexOf_absent: "c \<notin> set s \<Longrightarrow> indexOf c s = - 1"
  by (induction s) (auto simp: Let_def)

lemma indexOf_ge: "- 1 \<le> indexOf c s"
  by (induction s) (auto simp: Let_def)

lemma indexOf_present: "c \<in> set s \<Longrightarrow> 0 \<le> indexOf c s"
  by (induction s) (auto simp: Let_def)

lemma indexOf_first: "c \<notin> set pre \<Longrightarrow> indexOf c (pre @ c # post) = int (length pre)"
  by (induction pre) (auto simp: Let_def)

lemma indexOf_le: "0 \<le> indexOf c (a @ c # r) \<and> indexOf c (a @ c # r) \<le> int (length a)"
  by (induction a) (auto simp: Let_def)

lemma lastIndexOf_absent: "c \<notin> set s \<Longrightarrow> lastIndexOf c s = - 1"
  by (induction s) (auto simp: Let_def)

lemma lastIndexOf_present: "c \<in> set s \<Longrightarrow> 0 \<le> lastIndexOf c s"
  by (induction s) (auto simp: Let_def)

lemma lastIndexOf_last: "c \<notin> set post \<Longrightarrow> lastIndexOf c (pre @ c # post) = int (length pre)"
  by (induction pre) (auto simp: Let_def lastIndexOf_absent)

lemma lastIndexOf_ge: "int (length a) \<le> lastIndexOf c (a @ c # r)"
proof (induction a)
  case Nil
  show ?case using lastIndexOf_present [of c "c # r"] by simp
next
  case (Cons x a)
  then show ?case by (auto simp: Let_def)
qed

lemma extract_json_Some:
  assumes "extract_json out = Some j"
  shows "\<exists>pre mid post. out = pre @ j @ post \<and> j = CHR ''{'' # mid @ [CHR ''}''] \<and>
           CHR ''{'' \<notin> set pre \<and> CHR ''}'' \<notin> set post"
proof -
  let ?a = "indexOf CHR ''{'' out" and ?b = "lastIndexOf CHR ''}'' out"
  from assms have a: "0 \<le> ?a" and b: "0 \<le> ?b" and ab: "?a < ?b"
    and j: "j = substring out ?a (?b + 1)"
    by (auto simp: extract_json_def Let_def split: if_splits)
  from a have "CHR ''{'' \<in> set out" using indexOf_absent [of "CHR ''{''" out] by force
  then obtain p1 q1 where o1: "out = p1 @ CHR ''{'' # q1" and n1: "CHR ''{'' \<notin> set p1"
    by (auto dest: split_list_first)
  from b have "CHR ''}'' \<in> set out" using lastIndexOf_absent [of "CHR ''}''" out] by force
  then obtain p2 q2 where o2: "out = p2 @ CHR ''}'' # q2" and n2: "CHR ''}'' \<notin> set q2"
    by (auto dest: split_list_last)
  have ia: "?a = int (length p1)" unfolding o1 using n1 by (rule indexOf_first)
  have ib: "?b = int (length p2)" unfolding o2 using n2 by (rule lastIndexOf_last)
  from ab ia ib have lt: "length p1 < length p2" by simp
  from o1 o2 have "p1 @ CHR ''{'' # q1 = p2 @ CHR ''}'' # q2" by simp
  then obtain us where "(p1 = p2 @ us \<and> us @ CHR ''{'' # q1 = CHR ''}'' # q2) \<or>
      (p1 @ us = p2 \<and> CHR ''{'' # q1 = us @ CHR ''}'' # q2)"
    by (auto simp: append_eq_append_conv2)
  with lt have us: "p1 @ us = p2" "CHR ''{'' # q1 = us @ CHR ''}'' # q2" by auto
  with lt obtain mid where mid: "us = CHR ''{'' # mid"
    by (cases us) auto
  with us have o: "out = p1 @ (CHR ''{'' # mid @ [CHR ''}'']) @ q2"
    unfolding o2 by auto
  have p2: "length p2 = length p1 + Suc (length mid)" using us(1) mid by auto
  have "j = take (Suc (Suc (length mid))) (drop (length p1) out)"
    unfolding j substring_def ia ib p2 by (simp add: nat_diff_distrib nat_add_distrib)
  also have "\<dots> = CHR ''{'' # mid @ [CHR ''}'']"
    unfolding o by simp
  finally have "j = CHR ''{'' # mid @ [CHR ''}'']" .
  with o n1 n2 show ?thesis by blast
qed

lemma extract_json_None:
  "(extract_json out = None) = (\<not> (\<exists>a b c. out = a @ CHR ''{'' # b @ CHR ''}'' # c))"
proof
  assume n: "extract_json out = None"
  show "\<not> (\<exists>a b c. out = a @ CHR ''{'' # b @ CHR ''}'' # c)"
  proof
    assume "\<exists>a b c. out = a @ CHR ''{'' # b @ CHR ''}'' # c"
    then obtain a b c where o: "out = a @ CHR ''{'' # b @ CHR ''}'' # c" by blast
    let ?a = "indexOf CHR ''{'' out" and ?b = "lastIndexOf CHR ''}'' out"
    have ia: "0 \<le> ?a \<and> ?a \<le> int (length a)" unfolding o by (rule indexOf_le)
    have "out = (a @ CHR ''{'' # b) @ CHR ''}'' # c" by (simp add: o)
    then have "int (length (a @ CHR ''{'' # b)) \<le> ?b"
      using lastIndexOf_ge [of "a @ CHR ''{'' # b" "CHR ''}''" c] by simp
    with ia have "0 \<le> ?a \<and> 0 \<le> ?b \<and> ?a < ?b" by simp
    with n show False by (simp add: extract_json_def Let_def)
  qed
next
  assume n: "\<not> (\<exists>a b c. out = a @ CHR ''{'' # b @ CHR ''}'' # c)"
  show "extract_json out = None"
  proof (rule ccontr)
    assume "extract_json out \<noteq> None"
    then obtain j where "extract_json out = Some j" by blast
    from extract_json_Some [OF this] obtain pre mid post where
      "out = pre @ j @ post" "j = CHR ''{'' # mid @ [CHR ''}'']" by blast
    then have "out = pre @ CHR ''{'' # mid @ CHR ''}'' # post" by simp
    with n show False by blast
  qed
qed

lemma close_handler_dropped:
  "(extract_json (pyOutput p) = None \<longrightarrow>
      close_handler parse p code w = w\<lparr>console := console w @ [AnalyzerFinished code, NoValidJson]\<rparr>) \<and>
   (extract_json (pyOutput p) = Some j \<and> parse j = None \<longrightarrow>
      close_handler parse p code w =
        w\<lparr>console := console w @ [AnalyzerFinished code, CouldNotParse, RawOutput (pyOutput p)]\<rparr>)"
  by (simp add: close_handler_def console_log_def)

lemma close_handler_parsed:
  "extract_json (pyOutput p) = Some j \<Longrightarrow> parse j = Some r \<Longrightarrow>
   close_handler parse p code w =
     (if (case sessions w (proc_sid p) of None \<Rightarrow> False | Some s \<Rightarrow> isClosed s \<or> timedOut s)
      then w\<lparr>fs_log := fs_log w @ [WriteFile (FinalResultsPath (proc_sid p)) (Results r)],
             console := console w @ [AnalyzerFinished code, AnalysisResults r,
                                     SavedFinalResults (FinalResultsPath (proc_sid p))]\<rparr>
      else w\<lparr>console := console w @ [AnalyzerFinished code, AnalysisResults r]\<rparr>)"
  by (simp add: close_handler_def console_log_def fs_do_def Let_def split: option.splits)

lemma map_of_stdout:
  "map_of (map (\<lambda>(q, p). if q = pid then (q, f p) else (q, p)) xs) k =
     (if k = pid then map_option f (map_of xs k) else map_of xs k)"
  by (induction xs) auto

lemma on_stdout_running:
  "map_of (procs (on_stdout pid d w)) k =
     (if k = pid then map_option (\<lambda>p. p\<lparr>pyOutput := pyOutput p @ d\<rparr>) (map_of (procs w) k)
      else map_of (procs w) k)"
  by (simp add: on_stdout_def map_of_stdout)

lemma on_close_running:
  "map_of (procs w) pid = Some p \<Longrightarrow>
   on_close parse pid code w =
     close_handler parse p code (w\<lparr>procs := filter (\<lambda>(q, p'). q \<noteq> pid) (procs w)\<rparr>)"
  by (simp add: on_close_def)

lemma on_close_dropped:
  assumes "map_of (procs w) pid = Some p"
  shows "(extract_json (pyOutput p) = None \<longrightarrow>
      on_close parse pid code w =
        w\<lparr>procs := filter (\<lambda>(q, p'). q \<noteq> pid) (procs w),
          console := console w @ [AnalyzerFinished code, NoValidJson]\<rparr>) \<and>
   (extract_json (pyOutput p) = Some j \<and> parse j = None \<longrightarrow>
      on_close parse pid code w =
        w\<lparr>procs := filter (\<lambda>(q, p'). q \<noteq> pid) (procs w),
          console := console w @ [AnalyzerFinished code, CouldNotParse, RawOutput (pyOutput p)]\<rparr>)"
  using assms by (simp add: on_close_def close_handler_def console_log_def)

lemma on_close_parsed:
  assumes "map_of (procs w) pid = Some p" "extract_json (pyOutput p) = Some j" "parse j = Some r"
  shows "on_close parse pid code w =
     (if (case sessions w (proc_sid p) of None \<Rightarrow> False | Some s \<Rightarrow> isClosed s \<or> timedOut s)
      then w\<lparr>procs := filter (\<lambda>(q, p'). q \<noteq> pid) (procs w),
             fs_log := fs_log w @ [WriteFile (FinalResultsPath (proc_sid p)) (Results r)],
             console := console w @ [AnalyzerFinished code, AnalysisResults r,
                                     SavedFinalResults (FinalResultsPath (proc_sid p))]\<rparr>
      else w\<lparr>procs := filter (\<lambda>(q, p'). q \<noteq> pid) (procs w),
             console := console w @ [AnalyzerFinished code, AnalysisResults r]\<rparr>)"
  using assms
  by (simp add: on_close_def close_handler_def console_log_def fs_do_def Let_def split: option.splits)

lemma run_stdout:
  "map_of (procs w) pid = Some p \<Longrightarrow>
   map_of (procs (run parse (map (\<lambda>d. (e, ProcStdout pid d)) ds) w)) pid =
     Some (p\<lparr>pyOutput := pyOutput p @ concat ds\<rparr>)"
proof (induction ds arbitrary: w p)
  case Nil
  then show ?case by simp
next
  case (Cons d ds)
  from Cons.prems have "map_of (procs (on_stdout pid d w)) pid = Some (p\<lparr>pyOutput := pyOutput p @ d\<rparr>)"
    by (simp add: on_stdout_running)
  from Cons.IH [OF this] show ?case by simp
qed

subsection \<open>The first server variant\<close>

lemma post_log1_reject:
  "\<forall>xs. body = JArr xs \<longrightarrow> xs = [] \<Longrightarrow> post_log1 e hdr body w = (R400, w)"
  by (auto simp: post_log1_def split: jsval.splits list.splits)

lemma post_log1_cases [case_names reject unkeyed throw ok]:
  obtains
    (reject) "\<forall>xs. body = JArr xs \<longrightarrow> xs = []" "post_log1 e hdr body w = (R400, w)"
  | (unkeyed) "batch_entries body \<noteq> []"
      "session_key hdr body = None \<or> (\<exists>key \<in> set object_prototype_keys. session_key hdr body = Some key)"
      "post_log1 e hdr body w = (R500, w)"
  | (throw) key s1 where "session_key hdr body = Some key" "key \<notin> set object_prototype_keys"
      "ingest_entries (batch_entries body) (session_before1 w key) = (Throw, s1)"
      "post_log1 e hdr body w = (R500, w\<lparr>sessions1 := (sessions1 w)(key \<mapsto> s1)\<rparr>)"
  | (ok) key s1 where "session_key hdr body = Some key" "key \<notin> set object_prototype_keys"
      "ingest_entries (batch_entries body) (session_before1 w key) = (Normal, s1)"
      "post_log1 e hdr body w =
         (R200,
          if isClosed s1
          then finalizeSession1 (later e) key
                 (w\<lparr>sessions1 := (sessions1 w)(key \<mapsto> s1),
                    fs_log1 := fs_log1 w @
                      [WriteFile (RawLogFile key (date_folder e)) (LogsSnapshot (batch_entries body))]\<rparr>)
          else w\<lparr>sessions1 := (sessions1 w)(key \<mapsto> s1),
                 fs_log1 := fs_log1 w @
                   [WriteFile (RawLogFile key (date_folder e)) (LogsSnapshot (batch_entries body))]\<rparr>)"
proof (cases "\<forall>xs. body = JArr xs \<longrightarrow> xs = []")
  case True
  then have "post_log1 e hdr body w = (R400, w)" by (rule post_log1_reject)
  with True show ?thesis by (rule reject)
next
  case False
  then obtain first rest where body: "body = JArr (first # rest)"
    by (cases body) (auto simp: neq_Nil_conv)
  then have be: "batch_entries body = first # rest" by (simp add: batch_entries_def)
  from body have rq: "requested_id hdr body = Some (resolve_sessionId hdr first)"
    by (simp add: requested_id_def)
  show ?thesis
  proof (cases "to_string (resolve_sessionId hdr first)")
    case (Inl err)
    with body rq have "session_key hdr body = None" "post_log1 e hdr body w = (R500, w)"
      by (simp_all add: session_key_def post_log1_def)
    with be show ?thesis using unkeyed by simp
  next
    case (Inr key)
    with rq have sk: "session_key hdr body = Some key" by (simp add: session_key_def)
    show ?thesis
    proof (cases "key \<in> set object_prototype_keys")
      case True
      with body Inr have "post_log1 e hdr body w = (R500, w)"
        by (simp add: post_log1_def Let_def)
      with be sk True show ?thesis using unkeyed by auto
    next
      case notproto: False
      obtain c s1 where ing: "ingest_entries (first # rest) (session_before1 w key) = (c, s1)"
        by (cases "ingest_entries (first # rest) (session_before1 w key)")
      show ?thesis
      proof (cases c)
        case Throw
        with body Inr notproto ing
        have "post_log1 e hdr body w = (R500, w\<lparr>sessions1 := (sessions1 w)(key \<mapsto> s1)\<rparr>)"
          by (simp add: post_log1_def Let_def session_before1_def)
        with sk notproto ing Throw be show ?thesis using throw by simp
      next
        case Normal
        with body Inr notproto ing
        have "post_log1 e hdr body w =
         (R200,
          if isClosed s1
          then finalizeSession1 (later e) key
                 (w\<lparr>sessions1 := (sessions1 w)(key \<mapsto> s1),
                    fs_log1 := fs_log1 w @
                      [WriteFile (RawLogFile key (date_folder e)) (LogsSnapshot (first # rest))]\<rparr>)
          else w\<lparr>sessions1 := (sessions1 w)(key \<mapsto> s1),
                 fs_log1 := fs_log1 w @
                   [WriteFile (RawLogFile key (date_folder e)) (LogsSnapshot (first # rest))]\<rparr>)"
          by (simp add: post_log1_def Let_def session_before1_def)
        with sk notproto ing Normal be show ?thesis using ok by simp
      qed
    qed
  qed
qed

lemma finalizeSession1_sessions:
  "sessions1 (finalizeSession1 e sid w) =
     (case sessions1 w sid of None \<Rightarrow> sessions1 w
      | Some s \<Rightarrow> (sessions1 w)(sid \<mapsto> s\<lparr>analyzed := True\<rparr>))"
  by (auto simp: finalizeSession1_def Let_def split: option.splits)

lemma finalizeSession1_console:
  "console1 (finalizeSession1 e sid w) =
     console1 w @ (case sessions1 w sid of None \<Rightarrow> []
       | Some s \<Rightarrow> if analyzed s then [] else [SessionFinalizing sid])"
  by (simp add: finalizeSession1_def Let_def split: option.splits)

lemma finalizeSession1_noop:
  "sessions1 w sid = Some s \<Longrightarrow> analyzed s \<Longrightarrow> finalizeSession1 e sid w = w"
  by (simp add: finalizeSession1_def)

lemma finalize_step1_refl: "finalize_step1 w w x"
  by (simp add: finalize_step1_def)

lemma finalize_step1_trans:
  "finalize_step1 w w' x \<Longrightarrow> finalize_step1 w' w'' x \<Longrightarrow> finalize_step1 w w'' x"
  by (auto simp: finalize_step1_def)

lemma finalize_step1_same:
  "sessions1 w' = sessions1 w \<Longrightarrow>
   count_list (console1 w') (SessionFinalizing x) = count_list (console1 w) (SessionFinalizing x) \<Longrightarrow>
   finalize_step1 w w' x"
  by (simp add: finalize_step1_def analyzed_of1_def finalizations1_def)

lemma finalize_step1_store:
  "analyzed s1 = analyzed (session_before1 w key) \<Longrightarrow> console1 w' = console1 w \<Longrightarrow>
   sessions1 w' = (sessions1 w)(key \<mapsto> s1) \<Longrightarrow> finalize_step1 w w' x"
  by (auto simp: finalize_step1_def analyzed_of1_def finalizations1_def
        session_before1_def new_session1_def split: option.splits)

lemma finalize_step1_finalizeSession: "finalize_step1 w (finalizeSession1 e sid w) x"
  by (auto simp: finalize_step1_def analyzed_of1_def finalizations1_def
        finalizeSession1_sessions finalizeSession1_console split: option.splits)

lemma finalize_step1_post_log: "finalize_step1 w (snd (post_log1 e hdr body w)) x"
proof (cases e hdr body w rule: post_log1_cases)
  case reject
  then show ?thesis by (simp add: finalize_step1_refl)
next
  case unkeyed
  then show ?thesis by (simp add: finalize_step1_refl)
next
  case (throw key s1)
  then show ?thesis
    by (simp add: finalize_step1_store [of s1 w key] ingest_entries_analyzed_eq)
next
  case (ok key s1)
  let ?w2 = "w\<lparr>sessions1 := (sessions1 w)(key \<mapsto> s1),
      fs_log1 := fs_log1 w @
        [WriteFile (RawLogFile key (date_folder e)) (LogsSnapshot (batch_entries body))]\<rparr>"
  from ok have a: "finalize_step1 w ?w2 x"
    by (intro finalize_step1_store [of s1 w key]) (simp_all add: ingest_entries_analyzed_eq)
  from a finalize_step1_finalizeSession [of ?w2 "later e" key x]
  have "finalize_step1 w (finalizeSession1 (later e) key ?w2) x" by (rule finalize_step1_trans)
  with a ok show ?thesis by simp
qed

lemma finalize_step1_step: "finalize_step1 w (step1 parse ev w) x"
proof -
  obtain e evt where ev: "ev = (e, evt)" by (cases ev)
  show ?thesis
  proof (cases evt)
    case (PostLog hdr body)
    with ev show ?thesis by (simp add: finalize_step1_post_log)
  next
    case (TimerFire h)
    with ev show ?thesis by (simp add: finalize_step1_refl)
  next
    case (ProcStdout pid d)
    with ev show ?thesis by (simp add: finalize_step1_same on_stdout1_def)
  next
    case (ProcStderr pid d)
    with ev show ?thesis by (simp add: finalize_step1_same on_stderr1_def split: option.splits)
  next
    case (ProcClose pid code)
    with ev show ?thesis by (simp add: finalize_step1_same on_close1_def split: option.splits)
  qed
qed

lemma finalize_step1_run: "finalize_step1 w (run1 parse evs w) x"
proof (induction evs arbitrary: w)
  case Nil
  show ?case by (simp add: finalize_step1_refl)
next
  case (Cons ev evs)
  show ?case
    using finalize_step1_trans [OF finalize_step1_step Cons.IH] by simp
qed

lemma session_before1_logs: "logs (session_before1 w key) = logs_of1 w key"
  by (simp add: session_before1_def logs_of1_def new_session1_def split: option.splits)

lemma session_before1_earliest: "earliestStatsStartTime (session_before1 w key) = earliest_of1 w key"
  by (simp add: session_before1_def earliest_of1_def new_session1_def split: option.splits)

lemma finalizeSession1_logs_of [simp]: "logs_of1 (finalizeSession1 e sid w) x = logs_of1 w x"
  by (simp add: logs_of1_def finalizeSession1_sessions split: option.splits)

lemma finalizeSession1_earliest_of [simp]: "earliest_of1 (finalizeSession1 e sid w) x = earliest_of1 w x"
  by (simp add: earliest_of1_def finalizeSession1_sessions split: option.splits)

lemma post_log1_other_session:
  assumes "session_key hdr body \<noteq> Some x"
  shows "logs_of1 (snd (post_log1 e hdr body w)) x = logs_of1 w x \<and>
         earliest_of1 (snd (post_log1 e hdr body w)) x = earliest_of1 w x"
proof (cases e hdr body w rule: post_log1_cases)
  case reject
  then show ?thesis by simp
next
  case unkeyed
  then show ?thesis by simp
next
  case (throw key s1)
  with assms have "key \<noteq> x" by auto
  with throw(4) show ?thesis by (simp add: logs_of1_def earliest_of1_def)
next
  case (ok key s1)
  with assms have ne: "key \<noteq> x" by auto
  let ?w2 = "w\<lparr>sessions1 := (sessions1 w)(key \<mapsto> s1),
      fs_log1 := fs_log1 w @
        [WriteFile (RawLogFile key (date_folder e)) (LogsSnapshot (batch_entries body))]\<rparr>"
  have a: "logs_of1 (snd (post_log1 e hdr body w)) x = logs_of1 ?w2 x"
    "earliest_of1 (snd (post_log1 e hdr body w)) x = earliest_of1 ?w2 x"
    using ok(4) by simp_all
  from ne show ?thesis
    unfolding a by (simp add: logs_of1_def earliest_of1_def)
qed

lemma post_log1_accepted_session:
  assumes "session_key hdr body = Some x" "fst (post_log1 e hdr body w) = R200"
  shows "logs_of1 (snd (post_log1 e hdr body w)) x = logs_of1 w x @ batch_entries body \<and>
         earliest_of1 (snd (post_log1 e hdr body w)) x =
           first_write (earliest_of1 w x) (startTimes (batch_entries body))"
proof (cases e hdr body w rule: post_log1_cases)
  case (ok key s1)
  with assms have x: "x = key" by simp
  from ok have n: "fst (ingest_entries (batch_entries body) (session_before1 w key)) = Normal"
    and s1: "s1 = snd (ingest_entries (batch_entries body) (session_before1 w key))" by simp_all
  have l: "logs s1 = logs_of1 w key @ batch_entries body"
    using ingest_entries_logs_Normal [OF n] s1 by (simp add: session_before1_logs)
  have f: "earliestStatsStartTime s1 = first_write (earliest_of1 w key) (startTimes (batch_entries body))"
    using ingest_entries_est [OF n] s1 by (simp add: session_before1_earliest)
  let ?w2 = "w\<lparr>sessions1 := (sessions1 w)(key \<mapsto> s1),
      fs_log1 := fs_log1 w @
        [WriteFile (RawLogFile key (date_folder e)) (LogsSnapshot (batch_entries body))]\<rparr>"
  have "logs_of1 ?w2 key = logs s1" "earliest_of1 ?w2 key = earliestStatsStartTime s1"
    by (simp_all add: logs_of1_def earliest_of1_def)
  with ok(4) x l f show ?thesis by simp
qed (use assms in simp_all)

lemma post_log1_any_session:
  "(\<exists>ys. logs_of1 (snd (post_log1 e hdr body w)) x = logs_of1 w x @ ys) \<and>
   (earliest_of1 (snd (post_log1 e hdr body w)) x = earliest_of1 w x \<or>
    (\<not> truthy (earliest_of1 w x) \<and> truthy (earliest_of1 (snd (post_log1 e hdr body w)) x)))"
proof (cases e hdr body w rule: post_log1_cases)
  case reject
  then show ?thesis by simp
next
  case unkeyed
  then show ?thesis by simp
next
  case (throw key s1)
  then have s1: "s1 = snd (ingest_entries (batch_entries body) (session_before1 w key))" by simp
  show ?thesis
    using ingest_entries_logs_prefix [of "batch_entries body" "session_before1 w key"]
      ingest_entries_est_step [of "batch_entries body" "session_before1 w key"] throw(4) s1
    by (auto simp: logs_of1_def earliest_of1_def session_before1_def new_session1_def
          split: option.splits)
next
  case (ok key s1)
  then have s1: "s1 = snd (ingest_entries (batch_entries body) (session_before1 w key))" by simp
  let ?w2 = "w\<lparr>sessions1 := (sessions1 w)(key \<mapsto> s1),
      fs_log1 := fs_log1 w @
        [WriteFile (RawLogFile key (date_folder e)) (LogsSnapshot (batch_entries body))]\<rparr>"
  have a: "logs_of1 (snd (post_log1 e hdr body w)) x = logs_of1 ?w2 x"
    "earliest_of1 (snd (post_log1 e hdr body w)) x = earliest_of1 ?w2 x"
    using ok(4) by simp_all
  show ?thesis
    unfolding a
    using ingest_entries_logs_prefix [of "batch_entries body" "session_before1 w key"]
      ingest_entries_est_step [of "batch_entries body" "session_before1 w key"] s1
    by (auto simp: logs_of1_def earliest_of1_def session_before1_def new_session1_def
          split: option.splits)
qed

lemma step1_other_events:
  assumes "\<forall>hdr body. ev \<noteq> PostLog hdr body"
  shows "logs_of1 (step1 parse (e, ev) w) x = logs_of1 w x \<and>
         earliest_of1 (step1 parse (e, ev) w) x = earliest_of1 w x"
proof (cases ev)
  case (PostLog hdr body)
  with assms show ?thesis by simp
next
  case (TimerFire h)
  then show ?thesis by simp
next
  case (ProcStdout pid d)
  then show ?thesis by (simp add: logs_of1_def earliest_of1_def on_stdout1_def)
next
  case (ProcStderr pid d)
  then show ?thesis by (simp add: logs_of1_def earliest_of1_def on_stderr1_def split: option.splits)
next
  case (ProcClose pid code)
  then show ?thesis by (simp add: logs_of1_def earliest_of1_def on_close1_def split: option.splits)
qed

lemma step1_any_session:
  "(\<exists>ys. logs_of1 (step1 parse ev w) x = logs_of1 w x @ ys) \<and>
   (earliest_of1 (step1 parse ev w) x = earliest_of1 w x \<or>
    (\<not> truthy (earliest_of1 w x) \<and> truthy (earliest_of1 (step1 parse ev w) x)))"
proof (cases ev)
  case (Pair e evt)
  show ?thesis
  proof (cases "\<exists>hdr body. evt = PostLog hdr body")
    case True
    then obtain hdr body where "evt = PostLog hdr body" by blast
    with Pair post_log1_any_session [of e hdr body w x] show ?thesis by simp
  next
    case False
    with Pair step1_other_events [of evt parse e w x] show ?thesis by simp
  qed
qed

lemma run1_any_session:
  "(\<exists>ys. logs_of1 (run1 parse evs w) x = logs_of1 w x @ ys) \<and>
   (earliest_of1 (run1 parse evs w) x = earliest_of1 w x \<or>
    (\<not> truthy (earliest_of1 w x) \<and> truthy (earliest_of1 (run1 parse evs w) x)))"
proof (induction evs arbitrary: w)
  case Nil
  show ?case by simp
next
  case (Cons ev evs)
  from Cons.IH [of "step1 parse ev w"] step1_any_session [of parse ev w x]
  show ?case by auto
qed

lemma run1_accepted_session:
  "accepted_for1 parse x evs w \<Longrightarrow>
   logs_of1 (run1 parse evs w) x = logs_of1 w x @ batches_for x evs \<and>
   earliest_of1 (run1 parse evs w) x = first_write (earliest_of1 w x) (startTimes (batches_for x evs))"
proof (induction evs arbitrary: w)
  case Nil
  show ?case by (simp add: startTimes_def first_write_def)
next
  case (Cons a evs)
  obtain e ev where a: "a = (e, ev)" by (cases a)
  from Cons.prems a have acc: "accepted_for1 parse x evs (step1 parse (e, ev) w)" by simp
  note IH = Cons.IH [OF acc]
  show ?case
  proof (cases "\<exists>hdr body. ev = PostLog hdr body")
    case False
    then have "batches_for x ((e, ev) # evs) = batches_for x evs" by (cases ev) auto
    with False a IH step1_other_events [of ev parse e w x] show ?thesis by simp
  next
    case True
    then obtain hdr body where ev: "ev = PostLog hdr body" by blast
    show ?thesis
    proof (cases "session_key hdr body = Some x")
      case False
      with ev a IH post_log1_other_session [of hdr body x e w] show ?thesis by simp
    next
      case key: True
      with Cons.prems a ev have "fst (post_log1 e hdr body w) = R200" by simp
      from post_log1_accepted_session [OF key this] key ev a IH show ?thesis
        by (simp add: startTimes_append first_write_append truthy_in_startTimes)
    qed
  qed
qed

lemma post_log1_response_independent:
  "fst (post_log1 e hdr body w) = fst (post_log1 e' hdr body w')"
proof -
  have i: "\<And>key. fst (ingest_entries (batch_entries body) (session_before1 w key)) =
      fst (ingest_entries (batch_entries body) (session_before1 w' key))"
    by (rule ingest_entries_completion)
  note rj = post_log1_reject [of body e hdr w] post_log1_reject [of body e' hdr w']
  show ?thesis
  proof (cases e hdr body w rule: post_log1_cases)
    case reject
    with rj show ?thesis by simp
  next
    case unkeyed
    with rj show ?thesis by (cases e' hdr body w' rule: post_log1_cases) auto
  next
    case (throw key s1)
    with rj i [of key] show ?thesis by (cases e' hdr body w' rule: post_log1_cases) auto
  next
    case (ok sid s1)
    with rj i [of sid] show ?thesis by (cases e' hdr body w' rule: post_log1_cases) auto
  qed
qed

lemma accepted_for1_iff:
  "accepted_for1 parse sid evs w =
     (\<forall>ev \<in> set evs. case snd ev of
         PostLog hdr body \<Rightarrow>
           session_key hdr body \<noteq> Some sid \<or> fst (post_log1 (fst ev) hdr body init_world1) = R200
       | _ \<Rightarrow> True)"
proof (induction evs arbitrary: w)
  case Nil
  show ?case by simp
next
  case (Cons a evs)
  obtain e ev where a: "a = (e, ev)" by (cases a)
  show ?case
    using Cons.IH [of "step1 parse (e, ev) w"] a
      post_log1_response_independent [of e _ _ w e init_world1]
    by (cases ev) auto
qed

section \<open>Rejected requests\<close>

text \<open>
  C7. A request whose body is not a list of entries, or is the empty list, is answered with
  status 400 and leaves the whole server state as it was: the session table, every session
  record, the timer table and the pending timers. Both server variants do so.
\<close>

theorem rejected_batch_changes_nothing:
  assumes "\<forall>xs. body = JArr xs \<longrightarrow> xs = []"
  shows "post_log e hdr body w = (R400, w) \<and> step parse (e, PostLog hdr body) w = w \<and>
         post_log1 e hdr body v = (R400, v) \<and> step1 parse (e, PostLog hdr body) v = v"
proof -
  from assms have "post_log e hdr body w = (R400, w)"
    by (auto simp: post_log_def split: jsval.splits list.splits)
  moreover from assms have "post_log1 e hdr body v = (R400, v)"
    by (auto simp: post_log1_def split: jsval.splits list.splits)
  ultimately show ?thesis by simp
qed

theorem rejected_batch_changes_nothing_witness:
  "post_log env0 (Some ''s1'') (JArr []) (snd (post_log env0 None (JArr [closing_entry]) init_world))
     = (R400, snd (post_log env0 None (JArr [closing_entry]) init_world)) \<and>
   post_log env0 None (JObj [(''type'', JStr ''stats'')]) init_world = (R400, init_world) \<and>
   post_log1 env0 None (JObj [(''type'', JStr ''stats'')]) init_world1 = (R400, init_world1)"
  using rejected_batch_changes_nothing [of "JArr []" env0 "Some ''s1''"
          "snd (post_log env0 None (JArr [closing_entry]) init_world)" parse0 init_world1]
        rejected_batch_changes_nothing [of "JObj [(''type'', JStr ''stats'')]" env0 None init_world
          parse0 init_world1]
  by simp

section \<open>Finalization\<close>

text \<open>
  C1. Finalization runs at most once per session. Whatever requests, timer fires and
  analyzer events arrive, and in whatever order, a server started empty never gets past
  the guard of \<^verbatim>\<open>finalizeSession\<close> more than once for a session, and never runs more than one
  final analysis pass for it. From any state, a sequence of events adds at most one
  finalization. Once \<^verbatim>\<open>analyzed\<close> is true it stays true, no later event finalizes again, and
  a call of \<^verbatim>\<open>finalizeSession\<close> returns the state unchanged. The call that finds
  \<^verbatim>\<open>analyzed\<close> false sets it first: the line it prints and the analysis pass it requests
  already work on the state in which \<^verbatim>\<open>analyzed\<close> is true. The first server variant,
  with its own \<^verbatim>\<open>finalizeSession\<close>, has the same guard and the same bound.
\<close>

theorem finalization_at_most_once:
  "finalizations (run parse evs init_world) sid \<le> 1 \<and>
   final_passes (run parse evs init_world) sid \<le> 1 \<and>
   finalizations (run parse evs w) sid \<le> Suc (finalizations w sid) \<and>
   (analyzed_of w sid \<longrightarrow>
      analyzed_of (run parse evs w) sid \<and>
      finalizations (run parse evs w) sid = finalizations w sid \<and>
      final_passes (run parse evs w) sid = final_passes w sid \<and>
      finalizeSession e sid w = w) \<and>
   (sessions w sid = Some s \<and> \<not> analyzed s \<longrightarrow>
      finalizeSession e sid w =
        processLogsAndAnalyze e sid False
          (console_log (SessionFinalizing sid)
             (w\<lparr>sessions := (sessions w)(sid \<mapsto> s\<lparr>analyzed := True\<rparr>)\<rparr>)) \<and>
      analyzed_of (finalizeSession e sid w) sid \<and>
      finalizations (finalizeSession e sid w) sid = Suc (finalizations w sid)) \<and>
   finalizations1 (run1 parse evs init_world1) sid \<le> 1 \<and>
   finalizations1 (run1 parse evs v) sid \<le> Suc (finalizations1 v sid) \<and>
   (analyzed_of1 v sid \<longrightarrow>
      analyzed_of1 (run1 parse evs v) sid \<and>
      finalizations1 (run1 parse evs v) sid = finalizations1 v sid \<and>
      finalizeSession1 e sid v = v) \<and>
   (\<not> analyzed_of1 v sid \<and> sessions1 v sid \<noteq> None \<longrightarrow>
      analyzed_of1 (finalizeSession1 e sid v) sid \<and>
      finalizations1 (finalizeSession1 e sid v) sid = Suc (finalizations1 v sid))"
proof -
  have init: "finalizations init_world sid = 0" "final_passes init_world sid = 0"
    "\<not> analyzed_of init_world sid"
    by (simp_all add: init_world_def finalizations_def final_passes_def analyzed_of_def)
  have "finalize_step init_world (run parse evs init_world) sid"
    by (rule finalize_step_run)
  with init have a: "finalizations (run parse evs init_world) sid \<le> 1 \<and>
      final_passes (run parse evs init_world) sid \<le> 1"
    by (auto simp: finalize_step_def)
  have r: "finalize_step w (run parse evs w) sid"
    by (rule finalize_step_run)
  then have b: "finalizations (run parse evs w) sid \<le> Suc (finalizations w sid)"
    by (auto simp: finalize_step_def)
  have c: "analyzed_of w sid \<longrightarrow>
      analyzed_of (run parse evs w) sid \<and>
      finalizations (run parse evs w) sid = finalizations w sid \<and>
      final_passes (run parse evs w) sid = final_passes w sid \<and>
      finalizeSession e sid w = w"
    using r by (auto simp: finalize_step_def analyzed_of_def finalizeSession_def split: option.splits)
  have d: "sessions w sid = Some s \<and> \<not> analyzed s \<longrightarrow>
      finalizeSession e sid w =
        processLogsAndAnalyze e sid False
          (console_log (SessionFinalizing sid)
             (w\<lparr>sessions := (sessions w)(sid \<mapsto> s\<lparr>analyzed := True\<rparr>)\<rparr>)) \<and>
      analyzed_of (finalizeSession e sid w) sid \<and>
      finalizations (finalizeSession e sid w) sid = Suc (finalizations w sid)"
    by (simp add: finalizeSession_def analyzed_of_def finalizations_def pla_console)
  have init1: "finalizations1 init_world1 sid = 0" "\<not> analyzed_of1 init_world1 sid"
    by (simp_all add: init_world1_def finalizations1_def analyzed_of1_def)
  have "finalize_step1 init_world1 (run1 parse evs init_world1) sid"
    by (rule finalize_step1_run)
  with init1 have a1: "finalizations1 (run1 parse evs init_world1) sid \<le> 1"
    by (auto simp: finalize_step1_def)
  have r1: "finalize_step1 v (run1 parse evs v) sid"
    by (rule finalize_step1_run)
  then have b1: "finalizations1 (run1 parse evs v) sid \<le> Suc (finalizations1 v sid)"
    by (auto simp: finalize_step1_def)
  have c1: "analyzed_of1 v sid \<longrightarrow>
      analyzed_of1 (run1 parse evs v) sid \<and>
      finalizations1 (run1 parse evs v) sid = finalizations1 v sid \<and>
      finalizeSession1 e sid v = v"
    using r1 by (auto simp: finalize_step1_def analyzed_of1_def finalizeSession1_def split: option.splits)
  have d1: "\<not> analyzed_of1 v sid \<and> sessions1 v sid \<noteq> None \<longrightarrow>
      analyzed_of1 (finalizeSession1 e sid v) sid \<and>
      finalizations1 (finalizeSession1 e sid v) sid = Suc (finalizations1 v sid)"
    by (auto simp: analyzed_of1_def finalizations1_def finalizeSession1_sessions
          finalizeSession1_console)
  from a b c d a1 b1 c1 d1 show ?thesis by blast
qed

theorem finalization_at_most_once_witness:
  "analyzed_of world_closed ''s1'' \<and>
   analyzed_of (run parse0 [(env0, PostLog None (JArr [closing_entry])), (env_later, TimerFire 1)]
                  world_closed) ''s1'' \<and>
   finalizations (run parse0 [(env0, PostLog None (JArr [closing_entry])), (env_later, TimerFire 1)]
                    world_closed) ''s1'' = 1 \<and>
   finalizeSession env_later ''s1'' world_closed = world_closed \<and>
   \<not> analyzed_of world_open ''s1'' \<and>
   analyzed_of (finalizeSession env_later ''s1'' world_open) ''s1'' \<and>
   finalizations (finalizeSession env_later ''s1'' world_open) ''s1'' = 1 \<and>
   analyzed_of1 world1_closed ''s1'' \<and>
   finalizeSession1 env_later ''s1'' world1_closed = world1_closed \<and>
   finalizations1 (run1 parse0 [(env_later, PostLog None (JArr [closing_entry]))] world1_closed) ''s1'' =
     finalizations1 world1_closed ''s1'' \<and>
   \<not> analyzed_of1 world1_open ''s1'' \<and> sessions1 world1_open ''s1'' \<noteq> None \<and>
   analyzed_of1 (finalizeSession1 env_later ''s1'' world1_open) ''s1'' \<and>
   finalizations1 (finalizeSession1 env_later ''s1'' world1_open) ''s1'' = 1"
proof -
  have h1: "analyzed_of world_closed ''s1''"
    by (simp add: world_closed_eq analyzed_of_def)
  have f1: "finalizations world_closed ''s1'' = 1"
    by (simp add: world_closed_eq finalizations_def)
  have h2: "sessions world_open ''s1'' =
      Some \<lparr>logs = [stats_entry (JStr ''2025-02-26T05:46:26.093Z'')],
        isClosed = False, firstStatsTimestamp = JNull,
        earliestStatsStartTime = JStr ''2025-02-26T05:46:26.093Z'', analyzed = False,
        timedOut = False, lastActivityTime = 1000\<rparr>"
    by (simp add: world_open_eq)
  have f2: "finalizations world_open ''s1'' = 0" "\<not> analyzed_of world_open ''s1''"
    by (simp_all add: world_open_eq finalizations_def analyzed_of_def)
  have h3: "\<not> analyzed \<lparr>logs = [stats_entry (JStr ''2025-02-26T05:46:26.093Z'')],
        isClosed = False, firstStatsTimestamp = JNull,
        earliestStatsStartTime = JStr ''2025-02-26T05:46:26.093Z'', analyzed = False,
        timedOut = False, lastActivityTime = 1000\<rparr>"
    by simp
  have c1: "analyzed_of (run parse0 [(env0, PostLog None (JArr [closing_entry])), (env_later, TimerFire 1)]
                  world_closed) ''s1'' \<and>
      finalizations (run parse0 [(env0, PostLog None (JArr [closing_entry])), (env_later, TimerFire 1)]
                    world_closed) ''s1'' = finalizations world_closed ''s1'' \<and>
      finalizeSession env_later ''s1'' world_closed = world_closed"
    using finalization_at_most_once
            [of parse0 "[(env0, PostLog None (JArr [closing_entry])), (env_later, TimerFire 1)]"
               "''s1''" world_closed env_later] h1
    by blast
  have c2: "analyzed_of (finalizeSession env_later ''s1'' world_open) ''s1'' \<and>
      finalizations (finalizeSession env_later ''s1'' world_open) ''s1'' =
        Suc (finalizations world_open ''s1'')"
    using finalization_at_most_once
            [of parse0 "[]" "''s1''" world_open env_later
               "\<lparr>logs = [stats_entry (JStr ''2025-02-26T05:46:26.093Z'')],
                 isClosed = False, firstStatsTimestamp = JNull,
                 earliestStatsStartTime = JStr ''2025-02-26T05:46:26.093Z'', analyzed = False,
                 timedOut = False, lastActivityTime = 1000\<rparr>"]
          h2 h3
    by blast
  have h4: "analyzed_of1 world1_closed ''s1''"
    by (simp add: world1_closed_eq analyzed_of1_def)
  have h5: "\<not> analyzed_of1 world1_open ''s1''" "sessions1 world1_open ''s1'' \<noteq> None"
    "finalizations1 world1_open ''s1'' = 0"
    by (simp_all add: world1_open_eq analyzed_of1_def finalizations1_def)
  have c4: "analyzed_of1 (finalizeSession1 env_later ''s1'' world1_open) ''s1'' \<and>
      finalizations1 (finalizeSession1 env_later ''s1'' world1_open) ''s1'' =
        Suc (finalizations1 world1_open ''s1'')"
    using finalization_at_most_once
            [of parse0 "[]" "''s1''" world_closed env_later _ world1_open] h5
    by blast
  have c3: "finalizeSession1 env_later ''s1'' world1_closed = world1_closed \<and>
      finalizations1 (run1 parse0 [(env_later, PostLog None (JArr [closing_entry]))] world1_closed) ''s1'' =
        finalizations1 world1_closed ''s1''"
    using finalization_at_most_once
            [of parse0 "[(env_later, PostLog None (JArr [closing_entry]))]" "''s1''" world_closed
               env_later _ world1_closed] h4
    by blast
  from c1 c2 c3 c4 h1 h4 h5 f1 f2 show ?thesis by simp
qed

section \<open>Ingestion\<close>

text \<open>
  C5. The logs of a session are append-only and hold the accepted batches in arrival order.
  Whatever events arrive, the logs a session had are a prefix of the logs it has afterwards.
  When every request submitted under the session id in a sequence of events is accepted
  (answered 200), the session's logs afterwards are its logs before followed by the
  concatenation of those batches in arrival order, whatever other events (requests for other
  sessions, timer fires, analyzer events) come in between; on a server started empty the
  logs are exactly that concatenation. The same holds for the first server variant.
\<close>

theorem logs_are_batches_in_arrival_order:
  "(\<exists>ys. logs_of (run parse evs w) sid = logs_of w sid @ ys) \<and>
   (accepted_for parse sid evs w \<longrightarrow>
      logs_of (run parse evs w) sid = logs_of w sid @ batches_for sid evs) \<and>
   (accepted_for parse sid evs init_world \<longrightarrow>
      logs_of (run parse evs init_world) sid = batches_for sid evs) \<and>
   (\<exists>ys. logs_of1 (run1 parse evs v) sid = logs_of1 v sid @ ys) \<and>
   (accepted_for1 parse sid evs v \<longrightarrow>
      logs_of1 (run1 parse evs v) sid = logs_of1 v sid @ batches_for sid evs) \<and>
   (accepted_for1 parse sid evs init_world1 \<longrightarrow>
      logs_of1 (run1 parse evs init_world1) sid = batches_for sid evs)"
proof -
  have "logs_of init_world sid = []" "logs_of1 init_world1 sid = []"
    by (simp_all add: logs_of_def init_world_def logs_of1_def init_world1_def)
  then show ?thesis
    using run_any_session [of parse evs w sid] run_accepted_session [of parse sid evs w]
      run_accepted_session [of parse sid evs init_world]
      run1_any_session [of parse evs v sid] run1_accepted_session [of parse sid evs v]
      run1_accepted_session [of parse sid evs init_world1]
    by auto
qed

theorem logs_are_batches_in_arrival_order_witness:
  "accepted_for parse0 ''s1''
     [(env0, PostLog (Some ''s1'') (JArr [stats_entry (JStr ''T1''), stats_entry (JStr ''T0'')])),
      (env0, PostLog (Some ''s2'') (JArr [closing_entry])),
      (env_later, TimerFire 0),
      (env_later, PostLog None (JArr [closing_entry]))] init_world \<and>
   logs_of (run parse0
     [(env0, PostLog (Some ''s1'') (JArr [stats_entry (JStr ''T1''), stats_entry (JStr ''T0'')])),
      (env0, PostLog (Some ''s2'') (JArr [closing_entry])),
      (env_later, TimerFire 0),
      (env_later, PostLog None (JArr [closing_entry]))] init_world) ''s1'' =
     [stats_entry (JStr ''T1''), stats_entry (JStr ''T0''), closing_entry] \<and>
   accepted_for1 parse0 ''s1''
     [(env0, PostLog (Some ''s1'') (JArr [stats_entry (JStr ''T1''), stats_entry (JStr ''T0'')])),
      (env0, PostLog (Some ''s2'') (JArr [closing_entry])),
      (env_later, TimerFire 0),
      (env_later, PostLog None (JArr [closing_entry]))] init_world1 \<and>
   logs_of1 (run1 parse0
     [(env0, PostLog (Some ''s1'') (JArr [stats_entry (JStr ''T1''), stats_entry (JStr ''T0'')])),
      (env0, PostLog (Some ''s2'') (JArr [closing_entry])),
      (env_later, TimerFire 0),
      (env_later, PostLog None (JArr [closing_entry]))] init_world1) ''s1'' =
     [stats_entry (JStr ''T1''), stats_entry (JStr ''T0''), closing_entry]"
proof -
  let ?evs = "[(env0, PostLog (Some ''s1'') (JArr [stats_entry (JStr ''T1''), stats_entry (JStr ''T0'')])),
      (env0, PostLog (Some ''s2'') (JArr [closing_entry])),
      (env_later, TimerFire 0),
      (env_later, PostLog None (JArr [closing_entry]))]"
  have acc: "accepted_for parse0 ''s1'' ?evs init_world"
    by (simp add: accepted_for_iff eval_defs session_key_def requested_id_def)
  have b: "batches_for ''s1'' ?evs = [stats_entry (JStr ''T1''), stats_entry (JStr ''T0''), closing_entry]"
    by (simp add: session_key_def requested_id_def batch_entries_def resolve_sessionId_def
          closing_entry_def stats_entry_def Let_def)
  have acc1: "accepted_for1 parse0 ''s1'' ?evs init_world1"
    by (simp add: accepted_for1_iff eval_defs session_key_def requested_id_def)
  from logs_are_batches_in_arrival_order [of parse0 ?evs init_world "''s1''" init_world1] acc acc1
  have "logs_of (run parse0 ?evs init_world) ''s1'' = batches_for ''s1'' ?evs"
    "logs_of1 (run1 parse0 ?evs init_world1) ''s1'' = batches_for ''s1'' ?evs" by blast+
  with acc acc1 b show ?thesis by (simp only:)
qed

text \<open>
  C6. \<^verbatim>\<open>earliestStatsStartTime\<close> is first-write-wins within and across batches. Once it holds
  a value, no later event changes it, whatever start times later entries carry. When every
  request submitted under the session id is accepted, its value afterwards is the value
  before if that was set, and otherwise the first start time carried by a stat object of a
  stats entry of those batches, in arrival order (a stat object carries a start time when
  its \<^verbatim>\<open>startTime\<close> is truthy); on a server started empty it is that first start time, or
  still \<^verbatim>\<open>null\<close> when no entry carried one. The same holds for the first server variant.
\<close>

theorem earliest_start_time_first_write_wins:
  "(truthy (earliest_of w sid) \<longrightarrow> earliest_of (run parse evs w) sid = earliest_of w sid) \<and>
   (accepted_for parse sid evs w \<longrightarrow>
      earliest_of (run parse evs w) sid =
        first_write (earliest_of w sid) (startTimes (batches_for sid evs))) \<and>
   (accepted_for parse sid evs init_world \<longrightarrow>
      earliest_of (run parse evs init_world) sid =
        (case startTimes (batches_for sid evs) of [] \<Rightarrow> JNull | t # ts \<Rightarrow> t)) \<and>
   (truthy (earliest_of1 v sid) \<longrightarrow> earliest_of1 (run1 parse evs v) sid = earliest_of1 v sid) \<and>
   (accepted_for1 parse sid evs v \<longrightarrow>
      earliest_of1 (run1 parse evs v) sid =
        first_write (earliest_of1 v sid) (startTimes (batches_for sid evs))) \<and>
   (accepted_for1 parse sid evs init_world1 \<longrightarrow>
      earliest_of1 (run1 parse evs init_world1) sid =
        (case startTimes (batches_for sid evs) of [] \<Rightarrow> JNull | t # ts \<Rightarrow> t))"
proof -
  have "earliest_of init_world sid = JNull" "earliest_of1 init_world1 sid = JNull"
    by (simp_all add: earliest_of_def init_world_def earliest_of1_def init_world1_def)
  then show ?thesis
    using run_any_session [of parse evs w sid] run_accepted_session [of parse sid evs w]
      run_accepted_session [of parse sid evs init_world]
      run1_any_session [of parse evs v sid] run1_accepted_session [of parse sid evs v]
      run1_accepted_session [of parse sid evs init_world1]
    by (auto simp: first_write_def)
qed

theorem earliest_start_time_first_write_wins_witness:
  "truthy (earliest_of world_open ''s1'') \<and>
   earliest_of (run parse0
      [(env_later, PostLog (Some ''s1'') (JArr [stats_entry (JStr ''2025-02-26T01:00:00.000Z'')]))]
      world_open) ''s1'' = JStr ''2025-02-26T05:46:26.093Z'' \<and>
   accepted_for parse0 ''s1''
     [(env0, PostLog (Some ''s1'') (JArr [closing_entry, stats_entry (JStr ''T1'')])),
      (env0, PostLog (Some ''s1'') (JArr [stats_entry (JStr ''T0'')]))] init_world \<and>
   earliest_of (run parse0
     [(env0, PostLog (Some ''s1'') (JArr [closing_entry, stats_entry (JStr ''T1'')])),
      (env0, PostLog (Some ''s1'') (JArr [stats_entry (JStr ''T0'')]))] init_world) ''s1'' = JStr ''T1'' \<and>
   accepted_for1 parse0 ''s1''
     [(env0, PostLog (Some ''s1'') (JArr [closing_entry, stats_entry (JStr ''T1'')])),
      (env0, PostLog (Some ''s1'') (JArr [stats_entry (JStr ''T0'')]))] init_world1 \<and>
   earliest_of1 (run1 parse0
     [(env0, PostLog (Some ''s1'') (JArr [closing_entry, stats_entry (JStr ''T1'')])),
      (env0, PostLog (Some ''s1'') (JArr [stats_entry (JStr ''T0'')]))] init_world1) ''s1'' = JStr ''T1'' \<and>
   truthy (earliest_of1 world1_open ''s1'') \<and>
   earliest_of1 (run1 parse0
      [(env_later, PostLog (Some ''s1'') (JArr [stats_entry (JStr ''2025-02-26T01:00:00.000Z'')]))]
      world1_open) ''s1'' = JStr ''2025-02-26T05:46:26.093Z''"
proof -
  let ?evs = "[(env0, PostLog (Some ''s1'') (JArr [closing_entry, stats_entry (JStr ''T1'')])),
      (env0, PostLog (Some ''s1'') (JArr [stats_entry (JStr ''T0'')]))]"
  have e: "earliest_of world_open ''s1'' = JStr ''2025-02-26T05:46:26.093Z''"
    by (simp add: world_open_eq earliest_of_def)
  then have h: "truthy (earliest_of world_open ''s1'')" by simp
  have acc: "accepted_for parse0 ''s1'' ?evs init_world"
    by (simp add: accepted_for_iff eval_defs session_key_def requested_id_def)
  have b: "startTimes (batches_for ''s1'' ?evs) = [JStr ''T1'', JStr ''T0'']"
    by (simp add: session_key_def requested_id_def batch_entries_def resolve_sessionId_def
          closing_entry_def stats_entry_def Let_def startTimes_def stat_objects_def
          carried_startTime_def List.map_filter_def)
  from earliest_start_time_first_write_wins
         [of world_open "''s1''" parse0
            "[(env_later, PostLog (Some ''s1'') (JArr [stats_entry (JStr ''2025-02-26T01:00:00.000Z'')]))]"]
       h
  have c1: "earliest_of (run parse0
      [(env_later, PostLog (Some ''s1'') (JArr [stats_entry (JStr ''2025-02-26T01:00:00.000Z'')]))]
      world_open) ''s1'' = earliest_of world_open ''s1''" by blast
  have acc1: "accepted_for1 parse0 ''s1'' ?evs init_world1"
    by (simp add: accepted_for1_iff eval_defs session_key_def requested_id_def)
  from earliest_start_time_first_write_wins [of init_world "''s1''" parse0 ?evs init_world1] acc acc1
  have "earliest_of (run parse0 ?evs init_world) ''s1'' =
      (case startTimes (batches_for ''s1'' ?evs) of [] \<Rightarrow> JNull | t # ts \<Rightarrow> t)"
    "earliest_of1 (run1 parse0 ?evs init_world1) ''s1'' =
      (case startTimes (batches_for ''s1'' ?evs) of [] \<Rightarrow> JNull | t # ts \<Rightarrow> t)" by blast+
  then have c2: "earliest_of (run parse0 ?evs init_world) ''s1'' = JStr ''T1''"
    "earliest_of1 (run1 parse0 ?evs init_world1) ''s1'' = JStr ''T1''"
    by (simp_all only: b list.case)
  have e1: "earliest_of1 world1_open ''s1'' = JStr ''2025-02-26T05:46:26.093Z''"
    by (simp add: world1_open_eq earliest_of1_def)
  then have h1: "truthy (earliest_of1 world1_open ''s1'')" by simp
  from earliest_start_time_first_write_wins
         [of init_world "''s1''" parse0
            "[(env_later, PostLog (Some ''s1'') (JArr [stats_entry (JStr ''2025-02-26T01:00:00.000Z'')]))]"
            world1_open]
       h1
  have c3: "earliest_of1 (run1 parse0
      [(env_later, PostLog (Some ''s1'') (JArr [stats_entry (JStr ''2025-02-26T01:00:00.000Z'')]))]
      world1_open) ''s1'' = earliest_of1 world1_open ''s1''" by blast
  from h c1 e acc acc1 c2 h1 c3 e1 show ?thesis by (simp only:)
qed

text \<open>
  C9. A stat object whose \<^verbatim>\<open>startTime\<close> is present but falsy (\<open>0\<close>, the empty string,
  \<^verbatim>\<open>false\<close>, \<^verbatim>\<open>null\<close>) does not set \<^verbatim>\<open>earliestStatsStartTime\<close>, also when that is still
  unset: the scan goes on as if the stat object were not there. Only a truthy value is ever
  recorded: whenever a sequence of events changes a session's \<^verbatim>\<open>earliestStatsStartTime\<close>,
  the new value is truthy, and on a server started empty the field is \<^verbatim>\<open>null\<close> or truthy.
  Both server variants run this scan, and the same holds along the events of the first.
\<close>

theorem falsy_start_time_never_recorded:
  "(get_prop statObj ''startTime'' = Inr v \<and> \<not> truthy v \<longrightarrow>
      scan_stats (statObj # rest) s = scan_stats rest s) \<and>
   (earliest_of (run parse evs w) sid \<noteq> earliest_of w sid \<longrightarrow>
      truthy (earliest_of (run parse evs w) sid)) \<and>
   (earliest_of (run parse evs init_world) sid = JNull \<or>
      truthy (earliest_of (run parse evs init_world) sid)) \<and>
   (earliest_of1 (run1 parse evs u) sid \<noteq> earliest_of1 u sid \<longrightarrow>
      truthy (earliest_of1 (run1 parse evs u) sid)) \<and>
   (earliest_of1 (run1 parse evs init_world1) sid = JNull \<or>
      truthy (earliest_of1 (run1 parse evs init_world1) sid))"
proof -
  have "earliest_of init_world sid = JNull" "earliest_of1 init_world1 sid = JNull"
    by (simp_all add: earliest_of_def init_world_def earliest_of1_def init_world1_def)
  then show ?thesis
    using run_any_session [of parse evs w sid] run_any_session [of parse evs init_world sid]
      run1_any_session [of parse evs u sid] run1_any_session [of parse evs init_world1 sid]
    by auto
qed

theorem falsy_start_time_never_recorded_witness:
  "get_prop (JObj [(''startTime'', JNum 0)]) ''startTime'' = Inr (JNum 0) \<and> \<not> truthy (JNum 0) \<and>
   scan_stats [JObj [(''startTime'', JNum 0)], JObj [(''startTime'', JStr [])]] (new_session env0) =
     (Normal, new_session env0) \<and>
   earliest_of world_open ''s1'' \<noteq> earliest_of init_world ''s1'' \<and>
   truthy (earliest_of world_open ''s1'') \<and>
   earliest_of1 world1_open ''s1'' \<noteq> earliest_of1 init_world1 ''s1'' \<and>
   truthy (earliest_of1 world1_open ''s1'')"
proof -
  have h: "get_prop (JObj [(''startTime'', JNum 0)]) ''startTime'' = Inr (JNum 0) \<and> \<not> truthy (JNum 0)"
    by simp
  have r: "run parse0 [(env0, PostLog (Some ''s1'')
        (JArr [stats_entry (JStr ''2025-02-26T05:46:26.093Z'')]))] init_world = world_open"
    by (simp add: world_open_def)
  have e: "earliest_of world_open ''s1'' \<noteq> earliest_of init_world ''s1''"
    by (simp add: world_open_eq earliest_of_def init_world_def)
  from falsy_start_time_never_recorded
         [of "JObj [(''startTime'', JNum 0)]" "JNum 0" "[JObj [(''startTime'', JStr [])]]"
            "new_session env0"]
       h
  have c1: "scan_stats [JObj [(''startTime'', JNum 0)], JObj [(''startTime'', JStr [])]] (new_session env0) =
      scan_stats [JObj [(''startTime'', JStr [])]] (new_session env0)" by blast
  have c2: "scan_stats [JObj [(''startTime'', JStr [])]] (new_session env0) = (Normal, new_session env0)"
    by simp
  have r1: "run1 parse0 [(env0, PostLog (Some ''s1'')
        (JArr [stats_entry (JStr ''2025-02-26T05:46:26.093Z'')]))] init_world1 = world1_open"
    by (simp add: world1_open_def)
  have e1: "earliest_of1 world1_open ''s1'' \<noteq> earliest_of1 init_world1 ''s1''"
    by (simp add: world1_open_eq earliest_of1_def init_world1_def)
  note T = falsy_start_time_never_recorded
         [of _ _ _ _ parse0
            "[(env0, PostLog (Some ''s1'') (JArr [stats_entry (JStr ''2025-02-26T05:46:26.093Z'')]))]"
            init_world "''s1''" init_world1]
  from T e have c3: "truthy (earliest_of world_open ''s1'')"
    unfolding r by blast
  from T e1 have c4: "truthy (earliest_of1 world1_open ''s1'')"
    unfolding r1 by blast
  from h c1 c2 e c3 e1 c4 show ?thesis by simp
qed

section \<open>The inactivity timer\<close>

text \<open>
  C4. In every state \<open>W\<close> that a server started empty can reach, a session has at most one
  pending inactivity timer. Arming replaces the session's timer: after
  \<^verbatim>\<open>setupSessionTimeout\<close>, and so after every accepted request for the session, the only
  pending timer for it is the new one, due 10000 ms after the arming, and a timer that was
  pending for the session before never fires again, whatever happens later. A pending
  timer does not fire before it is due. When it fires, the session has \<^verbatim>\<open>timedOut\<close>,
  \<^verbatim>\<open>isClosed\<close> and \<^verbatim>\<open>analyzed\<close> set and has been finalized exactly once, the timer handle
  of the session is cleared, no timer is pending for it, and the fired timer never fires
  again.
\<close>

theorem one_pending_timer_per_session:
  assumes "W = run parse evs init_world"
  shows
    "length (pending_for W sid) \<le> 1 \<and>
     pending_for (setupSessionTimeout e sid W) sid =
       [(next_timer W, \<lparr>timer_sid = sid, timer_due = now_ms e + 10000\<rparr>)] \<and>
     (post_log e hdr body W = (R200, W') \<and> session_key hdr body = Some sid \<longrightarrow>
        pending_for W' sid = [(next_timer W, \<lparr>timer_sid = sid, timer_due = now_ms e + 10000\<rparr>)] \<and>
        ((h0, t0) \<in> set (pending_for W sid) \<longrightarrow>
           timer_fire e1 h0 (run parse evs1 W') = run parse evs1 W')) \<and>
     (map_of (timers W) h = Some t \<and> now_ms e < timer_due t \<longrightarrow> timer_fire e h W = W) \<and>
     (map_of (timers W) h = Some t \<and> timer_due t \<le> now_ms e \<longrightarrow>
        (\<exists>s. sessions (timer_fire e h W) (timer_sid t) = Some s \<and>
             timedOut s \<and> isClosed s \<and> analyzed s) \<and>
        finalizations (timer_fire e h W) (timer_sid t) = 1 \<and>
        sessionTimeouts (timer_fire e h W) (timer_sid t) = None \<and>
        pending_for (timer_fire e h W) (timer_sid t) = [] \<and>
        timer_fire e1 h (run parse evs1 (timer_fire e h W)) = run parse evs1 (timer_fire e h W))"
proof -
  from assms have ok: "timers_ok W"
    by (simp add: timers_ok_run timers_ok_init)
  have a: "length (pending_for W sid) \<le> 1"
    using ok by (rule pending_at_most_one)
  have b: "pending_for (setupSessionTimeout e sid W) sid =
       [(next_timer W, \<lparr>timer_sid = sid, timer_due = now_ms e + 10000\<rparr>)]"
    using setup_pending [OF ok, of e sid sid] by simp
  have c: "post_log e hdr body W = (R200, W') \<and> session_key hdr body = Some sid \<longrightarrow>
        pending_for W' sid = [(next_timer W, \<lparr>timer_sid = sid, timer_due = now_ms e + 10000\<rparr>)] \<and>
        ((h0, t0) \<in> set (pending_for W sid) \<longrightarrow>
           timer_fire e1 h0 (run parse evs1 W') = run parse evs1 W')"
  proof (intro impI, elim conjE)
    assume p: "post_log e hdr body W = (R200, W')" and k: "session_key hdr body = Some sid"
    note pp = post_log_accepted_pending [OF ok p k, of sid]
    have "(h0, t0) \<in> set (pending_for W sid) \<longrightarrow>
        timer_fire e1 h0 (run parse evs1 W') = run parse evs1 W'"
    proof
      assume "(h0, t0) \<in> set (pending_for W sid)"
      with pp have "superseded W' h0" by blast
      then have "superseded (run parse evs1 W') h0" by (rule superseded_run)
      then show "timer_fire e1 h0 (run parse evs1 W') = run parse evs1 W'"
        by (rule superseded_never_fires)
    qed
    with pp show "pending_for W' sid =
        [(next_timer W, \<lparr>timer_sid = sid, timer_due = now_ms e + 10000\<rparr>)] \<and>
        ((h0, t0) \<in> set (pending_for W sid) \<longrightarrow>
           timer_fire e1 h0 (run parse evs1 W') = run parse evs1 W')"
      by simp
  qed
  have d: "map_of (timers W) h = Some t \<and> now_ms e < timer_due t \<longrightarrow> timer_fire e h W = W"
    by (simp add: timer_fire_def)
  have f: "map_of (timers W) h = Some t \<and> timer_due t \<le> now_ms e \<longrightarrow>
        (\<exists>s. sessions (timer_fire e h W) (timer_sid t) = Some s \<and>
             timedOut s \<and> isClosed s \<and> analyzed s) \<and>
        finalizations (timer_fire e h W) (timer_sid t) = 1 \<and>
        sessionTimeouts (timer_fire e h W) (timer_sid t) = None \<and>
        pending_for (timer_fire e h W) (timer_sid t) = [] \<and>
        timer_fire e1 h (run parse evs1 (timer_fire e h W)) = run parse evs1 (timer_fire e h W)"
  proof (intro impI, elim conjE)
    assume m: "map_of (timers W) h = Some t" and due: "timer_due t \<le> now_ms e"
    note fd = timer_fire_due [OF ok m due]
    have r: "timer_fire e h W = run parse (evs @ [(e, TimerFire h)]) init_world"
      by (simp add: assms run_append)
    from fd have "analyzed_of (timer_fire e h W) (timer_sid t)"
      by (auto simp: analyzed_of_def)
    then have fin: "finalizations (timer_fire e h W) (timer_sid t) = 1"
      unfolding r using reachable_fin [of parse "evs @ [(e, TimerFire h)]" "timer_sid t"] by simp
    have "superseded (run parse evs1 (timer_fire e h W)) h"
      using fired_superseded [OF ok m due] by (rule superseded_run)
    then have "timer_fire e1 h (run parse evs1 (timer_fire e h W)) = run parse evs1 (timer_fire e h W)"
      by (rule superseded_never_fires)
    with fd fin show "(\<exists>s. sessions (timer_fire e h W) (timer_sid t) = Some s \<and>
             timedOut s \<and> isClosed s \<and> analyzed s) \<and>
        finalizations (timer_fire e h W) (timer_sid t) = 1 \<and>
        sessionTimeouts (timer_fire e h W) (timer_sid t) = None \<and>
        pending_for (timer_fire e h W) (timer_sid t) = [] \<and>
        timer_fire e1 h (run parse evs1 (timer_fire e h W)) = run parse evs1 (timer_fire e h W)"
      by simp
  qed
  from a b c d f show ?thesis by blast
qed

theorem one_pending_timer_per_session_witness:
  "world_open =
     run parse0 [(env0, PostLog (Some ''s1'') (JArr [stats_entry (JStr ''2025-02-26T05:46:26.093Z'')]))]
       init_world \<and>
   post_log env_later (Some ''s1'') (JArr [closing_entry]) world_open =
     (R200, snd (post_log env_later (Some ''s1'') (JArr [closing_entry]) world_open)) \<and>
   session_key (Some ''s1'') (JArr [closing_entry]) = Some ''s1'' \<and>
   (0, \<lparr>timer_sid = ''s1'', timer_due = 11000\<rparr>) \<in> set (pending_for world_open ''s1'') \<and>
   pending_for (snd (post_log env_later (Some ''s1'') (JArr [closing_entry]) world_open)) ''s1'' =
     [(1, \<lparr>timer_sid = ''s1'', timer_due = 30000\<rparr>)] \<and>
   timer_fire env_later 0 (snd (post_log env_later (Some ''s1'') (JArr [closing_entry]) world_open)) =
     snd (post_log env_later (Some ''s1'') (JArr [closing_entry]) world_open) \<and>
   map_of (timers world_open) 0 = Some \<lparr>timer_sid = ''s1'', timer_due = 11000\<rparr> \<and>
   timer_fire env0 0 world_open = world_open \<and>
   finalizations (timer_fire env_later 0 world_open) ''s1'' = 1 \<and>
   sessionTimeouts (timer_fire env_later 0 world_open) ''s1'' = None \<and>
   pending_for (timer_fire env_later 0 world_open) ''s1'' = []"
proof -
  let ?W' = "snd (post_log env_later (Some ''s1'') (JArr [closing_entry]) world_open)"
  let ?t = "\<lparr>timer_sid = ''s1'', timer_due = 11000\<rparr>"
  have r: "world_open =
     run parse0 [(env0, PostLog (Some ''s1'') (JArr [stats_entry (JStr ''2025-02-26T05:46:26.093Z'')]))]
       init_world"
    by (simp add: world_open_def)
  have "fst (post_log env_later (Some ''s1'') (JArr [closing_entry]) world_open) =
      fst (post_log env0 (Some ''s1'') (JArr [closing_entry]) init_world)"
    by (rule post_log_response_independent)
  also have "\<dots> = R200" by (simp add: eval_defs)
  finally have p: "post_log env_later (Some ''s1'') (JArr [closing_entry]) world_open = (R200, ?W')"
    by (simp add: prod_eq_iff)
  have k: "session_key (Some ''s1'') (JArr [closing_entry]) = Some ''s1''"
    by (simp add: session_key_def requested_id_def resolve_sessionId_def)
  have m: "(0, ?t) \<in> set (pending_for world_open ''s1'')"
    by (simp add: world_open_eq pending_for_def)
  have t: "map_of (timers world_open) 0 = Some ?t"
    by (simp add: world_open_eq)
  have n: "next_timer world_open = 1" "now_ms env_later + 10000 = 30000" "now_ms env0 < timer_due ?t"
    "timer_due ?t \<le> now_ms env_later" "timer_sid ?t = ''s1''"
    by (simp_all add: world_open_eq env_later_def env0_def)
  note T1 = one_pending_timer_per_session
              [OF r, of "''s1''" env_later "Some ''s1''" "JArr [closing_entry]" ?W' 0 ?t env_later "[]" 0 ?t]
  note T2 = one_pending_timer_per_session
              [OF r, of "''s1''" env0 "Some ''s1''" "JArr [closing_entry]" ?W' 0 ?t env_later "[]" 0 ?t]
  from T1 p k m have c1: "pending_for ?W' ''s1'' =
      [(next_timer world_open, \<lparr>timer_sid = ''s1'', timer_due = now_ms env_later + 10000\<rparr>)] \<and>
      timer_fire env_later 0 (run parse0 [] ?W') = run parse0 [] ?W'"
    by blast
  from T2 t n(3) have c2: "timer_fire env0 0 world_open = world_open" by blast
  from T1 t n(4) have c3: "finalizations (timer_fire env_later 0 world_open) (timer_sid ?t) = 1 \<and>
      sessionTimeouts (timer_fire env_later 0 world_open) (timer_sid ?t) = None \<and>
      pending_for (timer_fire env_later 0 world_open) (timer_sid ?t) = []"
    by blast
  from r p k m t c1 c2 c3 n show ?thesis by simp
qed

section \<open>Requests for a session that is already analyzed\<close>

text \<open>
  C10. An accepted request for a session whose \<^verbatim>\<open>analyzed\<close> flag is already true is processed
  in full. In a state \<open>W\<close> that a server started empty can reach, with the session \<open>s\<close>
  analyzed: the entries are appended to the logs, \<^verbatim>\<open>lastActivityTime\<close> is the time of the
  request, \<^verbatim>\<open>analyzed\<close> stays true, one analysis pass runs (the snapshot of all logs is
  written, the pass is announced, and the analyzer is spawned when its script exists, as a
  non-final pass), nothing is finalized again, and the session's only pending timer is a new
  one due 10000 ms later. When that timer fires, it sets \<^verbatim>\<open>timedOut\<close> and \<^verbatim>\<open>isClosed\<close>, prints
  its line and clears the handle, and the finalization it calls changes nothing: no file is
  written, no analyzer is spawned, no finalization is announced.
\<close>

theorem analyzed_session_still_ingests:
  assumes "W = run parse evs init_world"
    and "sessions W sid = Some s" and "analyzed s"
    and "post_log e hdr body W = (R200, W')" and "session_key hdr body = Some sid"
  shows "\<exists>s'. sessions W' sid = Some s' \<and> logs s' = logs s @ batch_entries body \<and>
       lastActivityTime s' = now_ms e \<and> analyzed s' \<and>
       console W' = console W @
         [ProcessingLogs sid True, if pyScript_exists e then RunningAnalyzer sid else AnalyzerNotFound] \<and>
       fs_log W' = fs_log W @
         (if dir_exists W (AnalysisFolder sid (folderName_of e s')) then []
          else [MkDir (AnalysisFolder sid (folderName_of e s'))]) @
         [WriteFile (CombinedJson sid (folderName_of e s')) (LogsSnapshot (logs s'))] \<and>
       procs W' = procs W @
         (if pyScript_exists e
          then [(next_pid W, \<lparr>proc_sid = sid, proc_newLogsOnly = True,
                   proc_input = CombinedJson sid (folderName_of e s'), pyOutput = []\<rparr>)]
          else []) \<and>
       pending_for W' sid = [(next_timer W, \<lparr>timer_sid = sid, timer_due = now_ms e + 10000\<rparr>)] \<and>
       (now_ms e + 10000 \<le> now_ms e1 \<longrightarrow>
          timer_fire e1 (next_timer W) W' =
            W'\<lparr>timers := filter (\<lambda>(h', t). h' \<noteq> next_timer W) (timers W'),
               console := console W' @ [SessionTimedOut sid],
               sessions := (sessions W')(sid \<mapsto> s'\<lparr>timedOut := True, isClosed := True\<rparr>),
               sessionTimeouts := (sessionTimeouts W')(sid := None)\<rparr>)"
proof -
  from assms(1) have "timers_ok W"
    by (simp add: timers_ok_run timers_ok_init)
  from analyzed_batch [OF this assms(2-5)] show ?thesis .
qed

theorem analyzed_session_still_ingests_witness:
  "world_closed = run parse0 [(env0, PostLog None (JArr [closing_entry]))] init_world \<and>
   analyzed_of world_closed ''s1'' \<and>
   post_log env_later (Some ''s1'') (JArr [stats_entry (JStr ''T1'')]) world_closed =
     (R200, snd (post_log env_later (Some ''s1'') (JArr [stats_entry (JStr ''T1'')]) world_closed)) \<and>
   session_key (Some ''s1'') (JArr [stats_entry (JStr ''T1'')]) = Some ''s1'' \<and>
   (\<exists>s'. sessions (snd (post_log env_later (Some ''s1'') (JArr [stats_entry (JStr ''T1'')]) world_closed))
           ''s1'' = Some s' \<and>
        logs s' = [closing_entry, stats_entry (JStr ''T1'')] \<and>
        lastActivityTime s' = 20000 \<and> analyzed s' \<and>
        pending_for (snd (post_log env_later (Some ''s1'') (JArr [stats_entry (JStr ''T1'')]) world_closed))
           ''s1'' = [(1, \<lparr>timer_sid = ''s1'', timer_due = 30000\<rparr>)] \<and>
        now_ms env_later + 10000 \<le> now_ms env_last \<and>
        fs_log (timer_fire env_last 1
            (snd (post_log env_later (Some ''s1'') (JArr [stats_entry (JStr ''T1'')]) world_closed))) =
          fs_log (snd (post_log env_later (Some ''s1'') (JArr [stats_entry (JStr ''T1'')]) world_closed)) \<and>
        procs (timer_fire env_last 1
            (snd (post_log env_later (Some ''s1'') (JArr [stats_entry (JStr ''T1'')]) world_closed))) =
          procs (snd (post_log env_later (Some ''s1'') (JArr [stats_entry (JStr ''T1'')]) world_closed)) \<and>
        sessions (timer_fire env_last 1
            (snd (post_log env_later (Some ''s1'') (JArr [stats_entry (JStr ''T1'')]) world_closed))) ''s1'' =
          Some (s'\<lparr>timedOut := True, isClosed := True\<rparr>))"
proof -
  let ?body = "JArr [stats_entry (JStr ''T1'')]"
  let ?W' = "snd (post_log env_later (Some ''s1'') ?body world_closed)"
  let ?s = "\<lparr>logs = [closing_entry], isClosed = True, firstStatsTimestamp = JNull,
        earliestStatsStartTime = JNull, analyzed = True, timedOut = False, lastActivityTime = 1000\<rparr>"
  have r: "world_closed = run parse0 [(env0, PostLog None (JArr [closing_entry]))] init_world"
    by (simp add: world_closed_def)
  have s: "sessions world_closed ''s1'' = Some ?s"
    by (simp add: world_closed_eq)
  have a: "analyzed ?s" by simp
  have a': "analyzed_of world_closed ''s1''"
    by (simp add: analyzed_of_def s)
  have "fst (post_log env_later (Some ''s1'') ?body world_closed) =
      fst (post_log env0 (Some ''s1'') ?body init_world)"
    by (rule post_log_response_independent)
  also have "\<dots> = R200" by (simp add: eval_defs)
  finally have p: "post_log env_later (Some ''s1'') ?body world_closed = (R200, ?W')"
    by (simp add: prod_eq_iff)
  have k: "session_key (Some ''s1'') ?body = Some ''s1''"
    by (simp add: session_key_def requested_id_def resolve_sessionId_def)
  have n: "next_timer world_closed = 1" "now_ms env_later = 20000" "logs ?s = [closing_entry]"
    "batch_entries ?body = [stats_entry (JStr ''T1'')]"
    by (simp_all add: world_closed_eq env_later_def batch_entries_def)
  have due: "now_ms env_later + 10000 \<le> now_ms env_last"
    by (simp add: env_later_def env_last_def)
  from analyzed_session_still_ingests [OF r s a p k, of env_last] due
  obtain s' where s': "sessions ?W' ''s1'' = Some s'" "logs s' = logs ?s @ batch_entries ?body"
    "lastActivityTime s' = now_ms env_later" "analyzed s'"
    "pending_for ?W' ''s1'' =
       [(next_timer world_closed, \<lparr>timer_sid = ''s1'', timer_due = now_ms env_later + 10000\<rparr>)]"
    "timer_fire env_last (next_timer world_closed) ?W' =
       ?W'\<lparr>timers := filter (\<lambda>(h', t). h' \<noteq> next_timer world_closed) (timers ?W'),
           console := console ?W' @ [SessionTimedOut ''s1''],
           sessions := (sessions ?W')(''s1'' \<mapsto> s'\<lparr>timedOut := True, isClosed := True\<rparr>),
           sessionTimeouts := (sessionTimeouts ?W')(''s1'' := None)\<rparr>"
    by blast
  have f: "fs_log (timer_fire env_last 1 ?W') = fs_log ?W'"
    "procs (timer_fire env_last 1 ?W') = procs ?W'"
    "sessions (timer_fire env_last 1 ?W') ''s1'' = Some (s'\<lparr>timedOut := True, isClosed := True\<rparr>)"
    using s'(6) n(1) by simp_all
  from s' n f due have "\<exists>s'. sessions ?W' ''s1'' = Some s' \<and>
        logs s' = [closing_entry, stats_entry (JStr ''T1'')] \<and>
        lastActivityTime s' = 20000 \<and> analyzed s' \<and>
        pending_for ?W' ''s1'' = [(1, \<lparr>timer_sid = ''s1'', timer_due = 30000\<rparr>)] \<and>
        now_ms env_later + 10000 \<le> now_ms env_last \<and>
        fs_log (timer_fire env_last 1 ?W') = fs_log ?W' \<and>
        procs (timer_fire env_last 1 ?W') = procs ?W' \<and>
        sessions (timer_fire env_last 1 ?W') ''s1'' = Some (s'\<lparr>timedOut := True, isClosed := True\<rparr>)"
    by (intro exI [of _ s']) simp
  with r a' p k show ?thesis by blast
qed

section \<open>Analyzer processes\<close>

text \<open>
  C2, as the code has it. There is no in-flight guard. Every accepted request spawns an
  analyzer for its session at once (while the analyzer script exists), and a second one
  when the request also finalizes the session and the script is still there, whatever is
  already running for that session: the analyzers in flight for the session afterwards are
  those in flight before, followed by the new ones. Each new analyzer is given the snapshot
  path computed by its own pass, which reads the clock again when the session has no
  statistics start time. Nothing is coalesced or deferred.
\<close>

theorem every_accepted_request_spawns:
  assumes "post_log e hdr body W = (R200, W')" and "session_key hdr body = Some sid"
    and "pyScript_exists e"
  shows "\<exists>s'. sessions W' sid = Some s' \<and>
     in_flight W' sid = in_flight W sid @
       (next_pid W, \<lparr>proc_sid = sid, proc_newLogsOnly = True,
          proc_input = CombinedJson sid (folderName_of e s'), pyOutput = []\<rparr>) #
       (if isClosed s' \<and> \<not> analyzed_of W sid \<and> pyScript_exists_later e
        then [(Suc (next_pid W), \<lparr>proc_sid = sid, proc_newLogsOnly = False,
                proc_input = CombinedJson sid (folderName_of (later e) s'), pyOutput = []\<rparr>)]
        else []) \<and>
     length (in_flight W sid) < length (in_flight W' sid)"
proof -
  from accepted_in_flight [OF assms(1,2)] assms(3)
  obtain s' where s': "sessions W' sid = Some s'"
    "in_flight W' sid = in_flight W sid @
       (next_pid W, \<lparr>proc_sid = sid, proc_newLogsOnly = True,
          proc_input = CombinedJson sid (folderName_of e s'), pyOutput = []\<rparr>) #
       (if isClosed s' \<and> \<not> analyzed_of W sid \<and> pyScript_exists_later e
        then [(Suc (next_pid W), \<lparr>proc_sid = sid, proc_newLogsOnly = False,
                proc_input = CombinedJson sid (folderName_of (later e) s'), pyOutput = []\<rparr>)]
        else [])"
    by auto
  then have "length (in_flight W sid) < length (in_flight W' sid)" by simp
  with s' show ?thesis by blast
qed

theorem every_accepted_request_spawns_witness:
  "post_log env_later (Some ''s1'') (JArr [stats_entry (JStr ''T1'')]) world_open =
     (R200, snd (post_log env_later (Some ''s1'') (JArr [stats_entry (JStr ''T1'')]) world_open)) \<and>
   session_key (Some ''s1'') (JArr [stats_entry (JStr ''T1'')]) = Some ''s1'' \<and>
   pyScript_exists env_later \<and>
   length (in_flight world_open ''s1'') = 1 \<and>
   1 < length (in_flight
         (snd (post_log env_later (Some ''s1'') (JArr [stats_entry (JStr ''T1'')]) world_open)) ''s1'')"
proof -
  let ?body = "JArr [stats_entry (JStr ''T1'')]"
  let ?W' = "snd (post_log env_later (Some ''s1'') ?body world_open)"
  have "fst (post_log env_later (Some ''s1'') ?body world_open) =
      fst (post_log env0 (Some ''s1'') ?body init_world)"
    by (rule post_log_response_independent)
  also have "\<dots> = R200" by (simp add: eval_defs)
  finally have p: "post_log env_later (Some ''s1'') ?body world_open = (R200, ?W')"
    by (simp add: prod_eq_iff)
  have k: "session_key (Some ''s1'') ?body = Some ''s1''"
    by (simp add: session_key_def requested_id_def resolve_sessionId_def)
  have x: "pyScript_exists env_later" by (simp add: env_later_def)
  have l: "length (in_flight world_open ''s1'') = 1"
    by (simp add: world_open_eq in_flight_def)
  from every_accepted_request_spawns [OF p k x]
  have "length (in_flight world_open ''s1'') < length (in_flight ?W' ''s1'')" by blast
  with l have "1 < length (in_flight ?W' ''s1'')" by simp
  with p k x l show ?thesis by blast
qed

text \<open>
  C2, as the claim states it, fails: one accepted request that carries a closing ICE state
  on an empty server leaves two analyzers in flight for the session, a non-final one
  (process 0) and a final one (process 1), each with the snapshot path of its own pass.
\<close>

theorem one_analyzer_in_flight_counterexample:
  "\<not> length (in_flight (run parse0 [(env0, PostLog None (JArr [closing_entry]))] init_world) ''s1'') \<le> 1 \<and>
   in_flight (run parse0 [(env0, PostLog None (JArr [closing_entry]))] init_world) ''s1'' =
     [(0, \<lparr>proc_sid = ''s1'', proc_newLogsOnly = True,
           proc_input = CombinedJson ''s1'' ''2025-02-26T05-46-26-093Z'', pyOutput = []\<rparr>),
      (1, \<lparr>proc_sid = ''s1'', proc_newLogsOnly = False,
           proc_input = CombinedJson ''s1'' ''2025-02-26T05-46-26-094Z'', pyOutput = []\<rparr>)]"
proof -
  have "run parse0 [(env0, PostLog None (JArr [closing_entry]))] init_world = world_closed"
    by (simp add: world_closed_def)
  then show ?thesis
    by (simp add: world_closed_eq in_flight_def)
qed

text \<open>
  C3, at the failing input. A request that carries a closing ICE state starts a non-final
  analysis pass (process 0, spawned with \<^verbatim>\<open>newLogsOnly = true\<close>) before it finalizes. When
  that non-final pass prints \<^verbatim>\<open>{}\<close> and closes, its close handler finds the session closed
  and writes the parsed result to the final-result path.
\<close>

theorem non_final_pass_writes_final_results:
  "map_of (procs (run parse0 [(env0, PostLog None (JArr [closing_entry]))] init_world)) 0 =
     Some \<lparr>proc_sid = ''s1'', proc_newLogsOnly = True,
           proc_input = CombinedJson ''s1'' ''2025-02-26T05-46-26-093Z'', pyOutput = []\<rparr> \<and>
   fs_log (run parse0
      [(env0, PostLog None (JArr [closing_entry])),
       (env_later, ProcStdout 0 ''{}''),
       (env_later, ProcClose 0 0)] init_world) =
     fs_log (run parse0 [(env0, PostLog None (JArr [closing_entry]))] init_world) @
       [WriteFile (FinalResultsPath ''s1'') (Results (JObj []))]"
proof -
  have r: "run parse0 [(env0, PostLog None (JArr [closing_entry]))] init_world = world_closed"
    by (simp add: world_closed_def)
  have r2: "run parse0
      [(env0, PostLog None (JArr [closing_entry])),
       (env_later, ProcStdout 0 ''{}''),
       (env_later, ProcClose 0 0)] init_world =
     on_close parse0 0 0 (on_stdout 0 ''{}'' world_closed)"
    by (simp add: world_closed_def)
  show ?thesis
    unfolding r r2
    by (simp add: world_closed_eq on_close_def on_stdout_def close_handler_def extract_json_def
          substring_def parse0_def console_log_def fs_do_def Let_def)
qed

section \<open>The analyzer output\<close>

text \<open>
  C8. For every analyzer in flight, what it prints on stdout is collected chunk by chunk, and
  when it closes the string handed to \<^verbatim>\<open>JSON.parse\<close> is exactly the part of the collected
  output from its first \<^verbatim>\<open>{\<close> to its last \<^verbatim>\<open>}\<close>: the output splits into a part without \<^verbatim>\<open>{\<close>,
  the extracted string, which starts with \<^verbatim>\<open>{\<close> and ends with \<^verbatim>\<open>}\<close>, and a part without
  \<^verbatim>\<open>}\<close>. Nothing is extracted exactly when the output has no \<^verbatim>\<open>{\<close> with a \<^verbatim>\<open>}\<close> somewhere after
  it. When the extracted string parses, the close event prints the parsed value (and, for a
  closed or timed-out session, writes it). When nothing is extracted, or the extracted
  string does not parse, the close event only takes the process out of flight and prints
  what happened (with the raw output, when the parse failed): no file is written, and no
  session or timer changes. The status of a request does not depend on whether an analyzer
  has closed.
\<close>

theorem analyzer_output_extraction:
  "(extract_json out = Some j \<longrightarrow>
      (\<exists>pre mid post. out = pre @ j @ post \<and> j = CHR ''{'' # mid @ [CHR ''}''] \<and>
          CHR ''{'' \<notin> set pre \<and> CHR ''}'' \<notin> set post)) \<and>
   ((extract_json out = None) = (\<not> (\<exists>a b c. out = a @ CHR ''{'' # b @ CHR ''}'' # c))) \<and>
   (map_of (procs w) pid = Some p \<longrightarrow>
      map_of (procs (step parse (e, ProcStdout pid d) w)) pid =
        Some (p\<lparr>pyOutput := pyOutput p @ d\<rparr>) \<and>
      map_of (procs (run parse (map (\<lambda>d. (e, ProcStdout pid d)) ds) w)) pid =
        Some (p\<lparr>pyOutput := pyOutput p @ concat ds\<rparr>)) \<and>
   (map_of (procs w) pid = Some p \<and> extract_json (pyOutput p) = Some j \<and> parse j = Some r \<longrightarrow>
      step parse (e, ProcClose pid code) w =
        (if (case sessions w (proc_sid p) of None \<Rightarrow> False | Some s \<Rightarrow> isClosed s \<or> timedOut s)
         then w\<lparr>procs := filter (\<lambda>(q, p'). q \<noteq> pid) (procs w),
                fs_log := fs_log w @ [WriteFile (FinalResultsPath (proc_sid p)) (Results r)],
                console := console w @ [AnalyzerFinished code, AnalysisResults r,
                                        SavedFinalResults (FinalResultsPath (proc_sid p))]\<rparr>
         else w\<lparr>procs := filter (\<lambda>(q, p'). q \<noteq> pid) (procs w),
                console := console w @ [AnalyzerFinished code, AnalysisResults r]\<rparr>)) \<and>
   (map_of (procs w) pid = Some p \<and> extract_json (pyOutput p) = None \<longrightarrow>
      step parse (e, ProcClose pid code) w =
        w\<lparr>procs := filter (\<lambda>(q, p'). q \<noteq> pid) (procs w),
          console := console w @ [AnalyzerFinished code, NoValidJson]\<rparr>) \<and>
   (map_of (procs w) pid = Some p \<and> extract_json (pyOutput p) = Some j \<and> parse j = None \<longrightarrow>
      step parse (e, ProcClose pid code) w =
        w\<lparr>procs := filter (\<lambda>(q, p'). q \<noteq> pid) (procs w),
          console := console w @ [AnalyzerFinished code, CouldNotParse, RawOutput (pyOutput p)]\<rparr>) \<and>
   fst (post_log e hdr body (step parse (e, ProcClose pid code) w)) = fst (post_log e hdr body w)"
proof -
  have a: "extract_json out = Some j \<longrightarrow>
      (\<exists>pre mid post. out = pre @ j @ post \<and> j = CHR ''{'' # mid @ [CHR ''}''] \<and>
          CHR ''{'' \<notin> set pre \<and> CHR ''}'' \<notin> set post)"
    using extract_json_Some [of out j] by blast
  have b: "(extract_json out = None) = (\<not> (\<exists>a b c. out = a @ CHR ''{'' # b @ CHR ''}'' # c))"
    by (rule extract_json_None)
  have c: "map_of (procs w) pid = Some p \<longrightarrow>
      map_of (procs (step parse (e, ProcStdout pid d) w)) pid =
        Some (p\<lparr>pyOutput := pyOutput p @ d\<rparr>) \<and>
      map_of (procs (run parse (map (\<lambda>d. (e, ProcStdout pid d)) ds) w)) pid =
        Some (p\<lparr>pyOutput := pyOutput p @ concat ds\<rparr>)"
    using run_stdout [of w pid p parse e ds] by (simp add: on_stdout_running)
  have d: "map_of (procs w) pid = Some p \<and> extract_json (pyOutput p) = Some j \<and> parse j = Some r \<longrightarrow>
      step parse (e, ProcClose pid code) w =
        (if (case sessions w (proc_sid p) of None \<Rightarrow> False | Some s \<Rightarrow> isClosed s \<or> timedOut s)
         then w\<lparr>procs := filter (\<lambda>(q, p'). q \<noteq> pid) (procs w),
                fs_log := fs_log w @ [WriteFile (FinalResultsPath (proc_sid p)) (Results r)],
                console := console w @ [AnalyzerFinished code, AnalysisResults r,
                                        SavedFinalResults (FinalResultsPath (proc_sid p))]\<rparr>
         else w\<lparr>procs := filter (\<lambda>(q, p'). q \<noteq> pid) (procs w),
                console := console w @ [AnalyzerFinished code, AnalysisResults r]\<rparr>)"
    using on_close_parsed [of w pid p j parse r code] by simp
  have f: "(map_of (procs w) pid = Some p \<and> extract_json (pyOutput p) = None \<longrightarrow>
      step parse (e, ProcClose pid code) w =
        w\<lparr>procs := filter (\<lambda>(q, p'). q \<noteq> pid) (procs w),
          console := console w @ [AnalyzerFinished code, NoValidJson]\<rparr>) \<and>
   (map_of (procs w) pid = Some p \<and> extract_json (pyOutput p) = Some j \<and> parse j = None \<longrightarrow>
      step parse (e, ProcClose pid code) w =
        w\<lparr>procs := filter (\<lambda>(q, p'). q \<noteq> pid) (procs w),
          console := console w @ [AnalyzerFinished code, CouldNotParse, RawOutput (pyOutput p)]\<rparr>)"
    using on_close_dropped [of w pid p parse code j] by simp
  have g: "fst (post_log e hdr body (step parse (e, ProcClose pid code) w)) = fst (post_log e hdr body w)"
    by (rule post_log_response_independent)
  from a b c d f g show ?thesis by blast
qed

theorem analyzer_output_extraction_witness:
  "extract_json ''log {oops} end'' = Some ''{oops}'' \<and>
   (\<exists>pre mid post. ''log {oops} end'' = pre @ ''{oops}'' @ post \<and>
       ''{oops}'' = CHR ''{'' # mid @ [CHR ''}''] \<and>
       CHR ''{'' \<notin> set pre \<and> CHR ''}'' \<notin> set post) \<and>
   parse0 ''{oops}'' = None \<and>
   map_of (procs world_open) 0 =
     Some \<lparr>proc_sid = ''s1'', proc_newLogsOnly = True,
           proc_input = CombinedJson ''s1'' ''05_46_26'', pyOutput = []\<rparr> \<and>
   run parse0
     [(env_later, ProcStdout 0 ''log {oo''), (env_later, ProcStdout 0 ''ps} end''),
      (env_later, ProcClose 0 1)] world_open =
     (run parse0 [(env_later, ProcStdout 0 ''log {oo''), (env_later, ProcStdout 0 ''ps} end'')] world_open)
       \<lparr>procs := [],
        console := console world_open @
          [AnalyzerFinished 1, CouldNotParse, RawOutput ''log {oops} end'']\<rparr> \<and>
   extract_json [] = None \<and>
   step parse0 (env_later, ProcClose 0 0) world_open =
     world_open\<lparr>procs := [],
       console := console world_open @ [AnalyzerFinished 0, NoValidJson]\<rparr> \<and>
   extract_json ''done {} bye'' = Some ''{}'' \<and> parse0 ''{}'' = Some (JObj []) \<and>
   fs_log (run parse0 [(env_later, ProcStdout 1 ''done {} bye''), (env_later, ProcClose 1 0)] world_closed) =
     fs_log world_closed @ [WriteFile (FinalResultsPath ''s1'') (Results (JObj []))]"
proof -
  let ?p0 = "\<lparr>proc_sid = ''s1'', proc_newLogsOnly = True,
           proc_input = CombinedJson ''s1'' ''05_46_26'', pyOutput = []\<rparr>"
  let ?p1 = "\<lparr>proc_sid = ''s1'', proc_newLogsOnly = False,
           proc_input = CombinedJson ''s1'' ''2025-02-26T05-46-26-094Z'', pyOutput = []\<rparr>"
  let ?ds = "[''log {oo'', ''ps} end'']"
  let ?W1 = "run parse0 [(env_later, ProcStdout 0 ''log {oo''), (env_later, ProcStdout 0 ''ps} end'')] world_open"
  let ?W2 = "run parse0 [(env_later, ProcStdout 1 ''done {} bye'')] world_closed"
  have x1: "extract_json ''log {oops} end'' = Some ''{oops}''"
    and x2: "extract_json [] = None"
    and x3: "extract_json ''done {} bye'' = Some ''{}''"
    by (simp_all add: extract_json_def substring_def)
  have q: "parse0 ''{oops}'' = None" "parse0 ''{}'' = Some (JObj [])"
    by (simp_all add: parse0_def)
  have m0: "map_of (procs world_open) 0 = Some ?p0"
    by (simp add: world_open_eq)
  have m1: "map_of (procs world_closed) 1 = Some ?p1"
    by (simp add: world_closed_eq)
  note T1 = analyzer_output_extraction
      [of "''log {oops} end''" "''{oops}''" world_open 0 ?p0 parse0 env_later "[]" ?ds "JObj []" 0
          None JNull]
  from T1 x1 have c1: "\<exists>pre mid post. ''log {oops} end'' = pre @ ''{oops}'' @ post \<and>
       ''{oops}'' = CHR ''{'' # mid @ [CHR ''}''] \<and>
       CHR ''{'' \<notin> set pre \<and> CHR ''}'' \<notin> set post"
    by blast
  from T1 m0 have "map_of (procs (run parse0 (map (\<lambda>d. (env_later, ProcStdout 0 d)) ?ds) world_open)) 0 =
      Some (?p0\<lparr>pyOutput := pyOutput ?p0 @ concat ?ds\<rparr>)"
    by blast
  then have mW1: "map_of (procs ?W1) 0 = Some (?p0\<lparr>pyOutput := ''log {oops} end''\<rparr>)"
    by simp
  have pW1: "procs ?W1 = [(0, ?p0\<lparr>pyOutput := ''log {oops} end''\<rparr>)]" "console ?W1 = console world_open"
    by (simp_all add: world_open_eq on_stdout_def)
  note T2 = analyzer_output_extraction
      [of "''log {oops} end''" "''{oops}''" ?W1 0 "?p0\<lparr>pyOutput := ''log {oops} end''\<rparr>" parse0
          env_later "[]" "[]" "JObj []" 1 None JNull]
  from T2 mW1 x1 q have "step parse0 (env_later, ProcClose 0 1) ?W1 =
      ?W1\<lparr>procs := filter (\<lambda>(q, p'). q \<noteq> 0) (procs ?W1),
          console := console ?W1 @ [AnalyzerFinished 1, CouldNotParse,
             RawOutput (pyOutput (?p0\<lparr>pyOutput := ''log {oops} end''\<rparr>))]\<rparr>"
    by simp
  then have c2: "run parse0
     [(env_later, ProcStdout 0 ''log {oo''), (env_later, ProcStdout 0 ''ps} end''),
      (env_later, ProcClose 0 1)] world_open =
     ?W1\<lparr>procs := [],
        console := console world_open @
          [AnalyzerFinished 1, CouldNotParse, RawOutput ''log {oops} end'']\<rparr>"
    using pW1 by simp
  from T1 m0 x2 have "step parse0 (env_later, ProcClose 0 0) world_open =
      world_open\<lparr>procs := filter (\<lambda>(q, p'). q \<noteq> 0) (procs world_open),
          console := console world_open @ [AnalyzerFinished 0, NoValidJson]\<rparr>"
    by simp
  then have c3: "step parse0 (env_later, ProcClose 0 0) world_open =
     world_open\<lparr>procs := [],
       console := console world_open @ [AnalyzerFinished 0, NoValidJson]\<rparr>"
    by (simp add: world_open_eq)
  note T3 = analyzer_output_extraction
      [of "''done {} bye''" "''{}''" world_closed 1 ?p1 parse0 env_later "''done {} bye''" "[]"
          "JObj []" 0 None JNull]
  from T3 m1 have mW2: "map_of (procs ?W2) 1 = Some (?p1\<lparr>pyOutput := ''done {} bye''\<rparr>)"
    by simp
  have sW2: "sessions ?W2 ''s1'' = sessions world_closed ''s1''" "fs_log ?W2 = fs_log world_closed"
    by simp_all
  have s: "sessions world_closed ''s1'' = Some \<lparr>logs = [closing_entry], isClosed = True,
        firstStatsTimestamp = JNull, earliestStatsStartTime = JNull, analyzed = True,
        timedOut = False, lastActivityTime = 1000\<rparr>"
    by (simp add: world_closed_eq)
  note T4 = analyzer_output_extraction
      [of "''done {} bye''" "''{}''" ?W2 1 "?p1\<lparr>pyOutput := ''done {} bye''\<rparr>" parse0
          env_later "[]" "[]" "JObj []" 0 None JNull]
  from T4 mW2 x3 q have "step parse0 (env_later, ProcClose 1 0) ?W2 =
        (if (case sessions ?W2 (proc_sid (?p1\<lparr>pyOutput := ''done {} bye''\<rparr>)) of None \<Rightarrow> False
             | Some s \<Rightarrow> isClosed s \<or> timedOut s)
         then ?W2\<lparr>procs := filter (\<lambda>(q, p'). q \<noteq> 1) (procs ?W2),
                fs_log := fs_log ?W2 @
                  [WriteFile (FinalResultsPath (proc_sid (?p1\<lparr>pyOutput := ''done {} bye''\<rparr>)))
                     (Results (JObj []))],
                console := console ?W2 @ [AnalyzerFinished 0, AnalysisResults (JObj []),
                    SavedFinalResults (FinalResultsPath (proc_sid (?p1\<lparr>pyOutput := ''done {} bye''\<rparr>)))]\<rparr>
         else ?W2\<lparr>procs := filter (\<lambda>(q, p'). q \<noteq> 1) (procs ?W2),
                console := console ?W2 @ [AnalyzerFinished 0, AnalysisResults (JObj [])]\<rparr>)"
    by simp
  then have "fs_log (step parse0 (env_later, ProcClose 1 0) ?W2) =
      fs_log world_closed @ [WriteFile (FinalResultsPath ''s1'') (Results (JObj []))]"
    using sW2 s by simp
  then have c4: "fs_log (run parse0 [(env_later, ProcStdout 1 ''done {} bye''), (env_later, ProcClose 1 0)]
        world_closed) =
      fs_log world_closed @ [WriteFile (FinalResultsPath ''s1'') (Results (JObj []))]"
    by simp
  from x1 c1 q m0 c2 x2 c3 x3 c4 show ?thesis by blast
qed

end
